theory Spec2Isabelle
  imports Main "HOL-Library.Word" "HOL-Library.Sublist"
begin

unbundle bit_operations_syntax

section \<open>The shared library and its host (sharedlib.c, tutorial14\_main.c)\<close>

text \<open>
  The library is C for x86-64 Linux: pointers and \<open>size_t\<close> are 64-bit words, \<open>int\<close> is a
  32-bit word read as two's complement, \<open>char\<close> is one byte. The buffers the library reads and
  writes live in one byte-addressed store, so that a call whose output pointer lies inside its
  input string is a call of the model as it is a call of the C function. The exported
  \<open>int\<close> lives in the same store, as four bytes in little-endian order at the address the
  loader gave it, so that a \<open>char\<close> pointer can reach it as it can in C. Signed overflow
  wraps around. \<open>strlen\<close> and the \<open>dl\<close> functions are the C library's, modelled by what
  they return.
\<close>

subsection \<open>Machine types and the program state\<close>

type_synonym addr = "64 word"
type_synonym byte = "8 word"
type_synonym cint = "32 word"
type_synonym memory = "addr \<Rightarrow> byte"

text \<open>An argument of a \<open>printf\<close> call, kept as it is passed (no formatting is modelled).\<close>

datatype printf_arg =
    Arg_int cint
  | Arg_str string
  | Arg_mem addr
  | Arg_sym string

text \<open>
  What the process does that is visible from outside: calls of the dynamic loader, output on
  the two streams, and the calls the host makes through the pointers it resolved.
\<close>

datatype event =
    Dlopen string
  | Dlerror
  | Dlsym string
  | Dlclose
  | Call string
  | Printf string "printf_arg list"
  | Fprintf_stderr string "printf_arg list"

text \<open>
  \<open>mem\<close> is the byte store, \<open>lib_global_counter_addr\<close> the address of the library's
  exported \<open>int\<close> (what \<open>dlsym\<close> returns for it), \<open>stores\<close> a log of the addresses of the
  byte stores done so far, oldest first, and \<open>trace\<close> the events so far, oldest first. The log
  and the \<open>Call\<close> events are there to state what a run wrote and called; the program does not
  read them.
\<close>

record state =
  mem :: memory
  lib_global_counter_addr :: addr
  stores :: "addr list"
  trace :: "event list"

definition store_byte :: "state \<Rightarrow> addr \<Rightarrow> byte \<Rightarrow> state" where
  "store_byte st a v = st\<lparr>mem := (mem st)(a := v), stores := stores st @ [a]\<rparr>"

definition emit :: "event \<Rightarrow> state \<Rightarrow> state" where
  "emit e st = st\<lparr>trace := trace st @ [e]\<rparr>"

text \<open>An \<open>int\<close> in the store: four bytes, the least significant first.\<close>

definition load_int :: "memory \<Rightarrow> addr \<Rightarrow> cint" where
  "load_int m a =
     ucast (m a) OR push_bit 8 (ucast (m (a + 1))) OR push_bit 16 (ucast (m (a + 2)))
       OR push_bit 24 (ucast (m (a + 3)))"

definition store_int :: "state \<Rightarrow> addr \<Rightarrow> cint \<Rightarrow> state" where
  "store_int st a v =
     store_byte
       (store_byte
         (store_byte (store_byte st a (ucast v)) (a + 1) (ucast (drop_bit 8 v)))
         (a + 2) (ucast (drop_bit 16 v)))
       (a + 3) (ucast (drop_bit 24 v))"

subsection \<open>C strings in the store\<close>

text \<open>\<open>string_at m p s\<close>: the C string at address \<open>p\<close> is \<open>s\<close>, its bytes followed by NUL.\<close>

fun string_at :: "memory \<Rightarrow> addr \<Rightarrow> byte list \<Rightarrow> bool" where
  "string_at m p [] = (m p = 0)"
| "string_at m p (c # cs) = (m p = c \<and> c \<noteq> 0 \<and> string_at m (p + 1) cs)"

fun store_bytes :: "memory \<Rightarrow> addr \<Rightarrow> byte list \<Rightarrow> memory" where
  "store_bytes m p [] = m"
| "store_bytes m p (c # cs) = store_bytes (m(p := c)) (p + 1) cs"

definition zero_memory :: memory where
  "zero_memory = (\<lambda>a. 0)"

definition bytes_of :: "string \<Rightarrow> byte list" where
  "bytes_of s = map of_char s"

text \<open>The two buffers of \<open>n + 1\<close> bytes at \<open>p\<close> and at \<open>q\<close> have no address in common.\<close>

definition separated :: "addr \<Rightarrow> addr \<Rightarrow> addr \<Rightarrow> bool" where
  "separated p q n \<longleftrightarrow> n < q - p \<and> n < p - q"

text \<open>The \<open>m\<close> bytes at \<open>p\<close> and the \<open>n\<close> bytes at \<open>q\<close> have no address in common.\<close>

definition disjoint_ranges :: "addr \<Rightarrow> nat \<Rightarrow> addr \<Rightarrow> nat \<Rightarrow> bool" where
  "disjoint_ranges p m q n \<longleftrightarrow> m \<le> unat (q - p) \<and> n \<le> unat (p - q)"

text \<open>
  \<open>strlen\<close> of the C library: the offset of the first NUL byte from \<open>p\<close> on. It does not return
  when the store has no NUL byte at all.
\<close>

partial_function (option) strlen_from :: "memory \<Rightarrow> addr \<Rightarrow> addr \<Rightarrow> addr option" where
  "strlen_from m p n = (if m (p + n) = 0 then Some n else strlen_from m p (n + 1))"

definition strlen :: "memory \<Rightarrow> addr \<Rightarrow> addr option" where
  "strlen m p = strlen_from m p 0"

subsection \<open>sharedlib.c\<close>

definition LIB_VERSION :: string where
  "LIB_VERSION = ''1.0.0''"

definition internal_calculate :: "cint \<Rightarrow> cint \<Rightarrow> cint" where
  "internal_calculate a b = (a * b) + (a + b)"

definition lib_initialize :: "state \<Rightarrow> cint \<times> state" where
  "lib_initialize st =
     (0, emit (Printf ''[Library] Initializing version %s\<newline>'' [Arg_str LIB_VERSION]) st)"

text \<open>
  Lines 36 to 38: \<open>c\<close> is promoted to \<open>int\<close> for the comparisons and the arithmetic, and the
  result is converted back to \<open>char\<close>.
\<close>

definition uppercase :: "byte \<Rightarrow> byte" where
  "uppercase c = (if 97 \<le> sint c \<and> sint c \<le> 122 then word_of_int (sint c - 97 + 65) else c)"

function process_loop :: "addr \<Rightarrow> addr \<Rightarrow> addr \<Rightarrow> addr \<Rightarrow> state \<Rightarrow> state" where
  "process_loop input output len i st =
     (if i < len
      then process_loop input output len (i + 1)
             (store_byte st (output + i) (uppercase (mem st (input + (len - 1 - i)))))
      else st)"
  by pat_completeness auto
termination
proof (relation "measure (\<lambda>(input, output, len, i, st). unat len - unat i)")
  show "wf (measure (\<lambda>(input, output, len, i, st). unat len - unat i))"
    by simp
next
  fix input out len i :: addr and st :: state
  assume "i < len"
  then show "((input, out, len, i + 1,
               store_byte st (out + i) (uppercase (mem st (input + (len - 1 - i))))),
              (input, out, len, i, st))
             \<in> measure (\<lambda>(input, output, len, i, st). unat len - unat i)"
    by simp unat_arith
qed

declare process_loop.simps [simp del]

datatype error = InvalidArgument | BufferTooSmall

text \<open>
  The result of \<open>lib_process_data\<close>: \<open>return -1\<close> is \<open>Inl InvalidArgument\<close>, \<open>return -2\<close> is
  \<open>Inl BufferTooSmall\<close>, and \<open>return len\<close> is \<open>Inr\<close> of \<open>len\<close> converted from \<open>size_t\<close> to
  the function's return type \<open>int\<close>. \<open>None\<close>: \<open>strlen\<close> does not return.
\<close>

definition lib_process_data ::
  "addr \<Rightarrow> addr \<Rightarrow> addr \<Rightarrow> state \<Rightarrow> ((error + cint) \<times> state) option" where
  "lib_process_data input output output_size st =
     (if input = 0 \<or> output = 0 \<or> output_size = 0 then Some (Inl InvalidArgument, st)
      else case strlen (mem st) input of
        None \<Rightarrow> None
      | Some len \<Rightarrow>
          if len \<ge> output_size then Some (Inl BufferTooSmall, st)
          else Some (Inr (ucast len),
                     store_byte (process_loop input output len 0 st) (output + len) 0))"

text \<open>The \<open>int\<close> the C function hands to its caller.\<close>

fun c_return :: "error + cint \<Rightarrow> cint" where
  "c_return (Inl InvalidArgument) = - 1"
| "c_return (Inl BufferTooSmall) = - 2"
| "c_return (Inr r) = r"

type_synonym callback_func = "cint \<Rightarrow> state \<Rightarrow> cint \<times> state"

definition lib_execute_callback :: "callback_func option \<Rightarrow> cint \<Rightarrow> state \<Rightarrow> cint \<times> state" where
  "lib_execute_callback cb v st =
     (case cb of
        None \<Rightarrow> (- 1, st)
      | Some f \<Rightarrow> f (internal_calculate v 10) st)"

definition lib_constructor :: "state \<Rightarrow> state" where
  "lib_constructor st = emit (Printf ''[Library] Loaded at %p\<newline>'' [Arg_sym ''lib_constructor'']) st"

definition lib_destructor :: "state \<Rightarrow> state" where
  "lib_destructor st = emit (Printf ''[Library] Unloading\<newline>'' []) st"

text \<open>The value of \<open>int lib_global_counter\<close>, read from its four bytes.\<close>

definition lib_global_counter :: "state \<Rightarrow> cint" where
  "lib_global_counter st = load_int (mem st) (lib_global_counter_addr st)"

definition lib_increment_counter :: "state \<Rightarrow> state" where
  "lib_increment_counter st =
     store_int st (lib_global_counter_addr st) (lib_global_counter st + 1)"

subsection \<open>The dynamic loader, as the host uses it\<close>

text \<open>
  The environment of a run of the host: which paths \<open>dlopen\<close> can load and the names each
  module exports, the text \<open>dlerror\<close> gives after a failed \<open>dlopen\<close>, and where the compiler
  put the string literal and the array \<open>output\<close> of \<open>main\<close>. A module that loads is this
  library, with the export table the environment gives for it.
\<close>

record host_env =
  modules :: "string \<Rightarrow> string list option"
  dlerror_text :: string
  literal_addr :: addr
  buffer_addr :: addr

text \<open>
  Loading the module runs the initialiser of \<open>int lib_global_counter = 0\<close> and then the
  constructor; releasing it runs the destructor.
\<close>

definition module_load :: "state \<Rightarrow> state" where
  "module_load st = lib_constructor (store_int st (lib_global_counter_addr st) 0)"

definition dlopen :: "host_env \<Rightarrow> string \<Rightarrow> state \<Rightarrow> string list option \<times> state" where
  "dlopen env path st =
     (case modules env path of
        None \<Rightarrow> (None, emit (Dlopen path) st)
      | Some exports \<Rightarrow> (Some exports, module_load (emit (Dlopen path) st)))"

text \<open>\<open>dlsym\<close>: whether the pointer returned is non-null.\<close>

definition dlsym :: "string list \<Rightarrow> string \<Rightarrow> state \<Rightarrow> bool \<times> state" where
  "dlsym handle name st = (name \<in> set handle, emit (Dlsym name) st)"

definition dlclose :: "state \<Rightarrow> state" where
  "dlclose st = lib_destructor (emit Dlclose st)"

subsection \<open>tutorial14\_main.c\<close>

definition my_callback :: callback_func where
  "my_callback v st =
     (v * 2, emit (Printf ''[Main] Callback received value: %d\<newline>'' [Arg_int v]) st)"

definition hello :: "byte list" where
  "hello = bytes_of ''Hello Dynamic Library''"

text \<open>Lines 44 to 71 of \<open>main\<close>: every export is resolved.\<close>

definition use_library :: "host_env \<Rightarrow> state \<Rightarrow> (cint \<times> state) option" where
  "use_library env st0 =
     (let st = emit (Printf ''\<newline>=== Testing Library Functions ===\<newline>'' []) st0;
          (ret, st) = lib_initialize (emit (Call ''lib_initialize'') st);
          st = emit (Printf ''[Main] lib_initialize returned: %d\<newline>'' [Arg_int ret]) st
      in case lib_process_data (literal_addr env) (buffer_addr env) 256
                (emit (Call ''lib_process_data'') st) of
           None \<Rightarrow> None
         | Some (r, st) \<Rightarrow>
            (let st = emit (Printf ''[Main] lib_process_data returned: %d\<newline>''
                              [Arg_int (c_return r)]) st;
                 st = emit (Printf (''[Main] Processed string: '' @ [CHR 0x27] @ ''%s''
                                      @ [CHR 0x27] @ ''\<newline>'')
                              [Arg_mem (buffer_addr env)]) st;
                 (ret, st) = lib_execute_callback (Some my_callback) 7
                               (emit (Call ''lib_execute_callback'') st);
                 st = emit (Printf ''[Main] lib_execute_callback returned: %d\<newline>''
                              [Arg_int ret]) st;
                 st = emit (Printf ''[Main] Initial counter value: %d\<newline>''
                              [Arg_int (lib_global_counter st)]) st;
                 st = lib_increment_counter (emit (Call ''lib_increment_counter'') st);
                 st = emit (Printf ''[Main] Counter after increment: %d\<newline>''
                              [Arg_int (lib_global_counter st)]) st;
                 st = emit (Printf ''\<newline>[Main] Unloading library\<newline>'' []) st
             in Some (0, dlclose st)))"

text \<open>\<open>main\<close>: the exit code and the final state; \<open>None\<close> when a call does not return.\<close>

definition main :: "host_env \<Rightarrow> state \<Rightarrow> (cint \<times> state) option" where
  "main env st0 =
     (case dlopen env ''./libshared14.so'' st0 of
        (None, st) \<Rightarrow>
          Some (1, emit (Fprintf_stderr ''Failed to load library: %s\<newline>''
                           [Arg_str (dlerror_text env)])
                     (emit Dlerror st))
      | (Some handle, st) \<Rightarrow>
          (let st = emit (Printf ''[Main] Library loaded successfully\<newline>'' []) st;
               (lib_init, st) = dlsym handle ''lib_initialize'' st;
               (lib_process, st) = dlsym handle ''lib_process_data'' st;
               (lib_callback, st) = dlsym handle ''lib_execute_callback'' st;
               (lib_increment, st) = dlsym handle ''lib_increment_counter'' st;
               (counter_ptr, st) = dlsym handle ''lib_global_counter'' st
           in if \<not> lib_init \<or> \<not> lib_process \<or> \<not> lib_callback \<or> \<not> lib_increment
                 \<or> \<not> counter_ptr
              then Some (1, dlclose (emit (Fprintf_stderr ''Failed to find symbols\<newline>'' []) st))
              else use_library env st))"

subsection \<open>The transformation, in the words of the specification\<close>

text \<open>
  The reverse of the string, with each ASCII lowercase letter replaced by the uppercase letter
  at the same place of the alphabet.
\<close>

definition ascii_lowercase :: "byte list" where
  "ascii_lowercase = bytes_of ''abcdefghijklmnopqrstuvwxyz''"

definition ascii_uppercase :: "byte list" where
  "ascii_uppercase = bytes_of ''ABCDEFGHIJKLMNOPQRSTUVWXYZ''"

definition to_upper :: "byte \<Rightarrow> byte" where
  "to_upper c = (case map_of (zip ascii_lowercase ascii_uppercase) c of Some u \<Rightarrow> u | None \<Rightarrow> c)"

definition reverse_upper :: "byte list \<Rightarrow> byte list" where
  "reverse_upper s = map to_upper (rev s)"

definition no_lowercase :: "byte list \<Rightarrow> bool" where
  "no_lowercase s = list_all (\<lambda>c. c \<notin> set ascii_lowercase) s"

definition printable_ascii :: "byte list \<Rightarrow> bool" where
  "printable_ascii s = list_all (\<lambda>c. 32 \<le> c \<and> c \<le> 126) s"

subsection \<open>Observations and concrete scenarios\<close>

text \<open>The \<open>n\<close> bytes of the store from \<open>p\<close> on.\<close>

definition load_bytes :: "memory \<Rightarrow> addr \<Rightarrow> nat \<Rightarrow> byte list" where
  "load_bytes m p n = map (\<lambda>k. m (p + of_nat k)) [0..<n]"

text \<open>What a call returned, and the bytes found at \<open>p\<close> after it.\<close>

definition returned :: "('a \<times> state) option \<Rightarrow> 'a option" where
  "returned r = map_option fst r"

definition bytes_after :: "('a \<times> state) option \<Rightarrow> addr \<Rightarrow> nat \<Rightarrow> byte list option" where
  "bytes_after r p n = map_option (\<lambda>(v, st). load_bytes (mem st) p n) r"

definition trace_after :: "('a \<times> state) option \<Rightarrow> event list option" where
  "trace_after r = map_option (\<lambda>(v, st). trace st) r"

text \<open>
  A state with nothing stored and the counter at address 1024, and the same with a C string
  put at an address.
\<close>

definition initial_state :: state where
  "initial_state =
     \<lparr>mem = zero_memory, lib_global_counter_addr = 1024, stores = [], trace = []\<rparr>"

definition with_string :: "addr \<Rightarrow> byte list \<Rightarrow> state \<Rightarrow> state" where
  "with_string p s st = st\<lparr>mem := store_bytes (mem st) p (s @ [0])\<rparr>"

text \<open>The string of the host at address 4096, with room for the output from 8192 on.\<close>

definition hello_state :: state where
  "hello_state = with_string 4096 hello initial_state"

text \<open>The string \<open>ab\<close> at address 4096, for calls whose output pointer is the input pointer.\<close>

definition ab_state :: state where
  "ab_state = with_string 4096 (bytes_of ''ab'') initial_state"

definition AB_state :: state where
  "AB_state = with_string 4096 (bytes_of ''AB'') initial_state"

text \<open>A string of \<open>2^31\<close> letters \<open>A\<close>, one more than the largest \<open>int\<close>.\<close>

definition long_string :: "byte list" where
  "long_string = replicate (2 ^ 31) 65"

definition long_state :: state where
  "long_state = with_string 4096 long_string initial_state"

text \<open>The string of \<open>n\<close> letters \<open>A\<close> at address 4096.\<close>

definition letters :: "nat \<Rightarrow> byte list" where
  "letters n = replicate n 65"

definition letters_state :: "nat \<Rightarrow> state" where
  "letters_state n = with_string 4096 (letters n) initial_state"

text \<open>The string \<open>abc\<close> at address 4096.\<close>

definition abc_state :: state where
  "abc_state = with_string 4096 (bytes_of ''abc'') initial_state"

text \<open>The state in which the counter has the value \<open>v\<close>.\<close>

definition with_counter :: "cint \<Rightarrow> state \<Rightarrow> state" where
  "with_counter v st = store_int st (lib_global_counter_addr st) v"

text \<open>The value of the counter after a call.\<close>

definition counter_after :: "('a \<times> state) option \<Rightarrow> cint option" where
  "counter_after r = map_option (\<lambda>(v, st). lib_global_counter st) r"

text \<open>The \<open>int\<close> a call of \<open>lib_process_data\<close> hands back, read as a number.\<close>

definition returned_int :: "((error + cint) \<times> state) option \<Rightarrow> int option" where
  "returned_int r = map_option (\<lambda>(v, st). sint (c_return v)) r"

text \<open>
  Two calls in a row, the second reading at \<open>q\<close> what the first wrote there and writing
  at \<open>r\<close>.
\<close>

definition process_twice ::
  "addr \<Rightarrow> addr \<Rightarrow> addr \<Rightarrow> addr \<Rightarrow> addr \<Rightarrow> state \<Rightarrow> ((error + cint) \<times> state) option" where
  "process_twice p q r size1 size2 st =
     (case lib_process_data p q size1 st of
        Some (Inr v, st1) \<Rightarrow> lib_process_data q r size2 st1
      | other \<Rightarrow> other)"

text \<open>The five names \<open>main\<close> resolves, in the order of its \<open>dlsym\<close> calls.\<close>

definition required_exports :: "string list" where
  "required_exports =
     [''lib_initialize'', ''lib_process_data'', ''lib_execute_callback'',
      ''lib_increment_counter'', ''lib_global_counter'']"

text \<open>The loader calls and library calls of a trace, and what was written to \<open>stderr\<close>.\<close>

fun is_output :: "event \<Rightarrow> bool" where
  "is_output (Printf f as) = True"
| "is_output (Fprintf_stderr f as) = True"
| "is_output e = False"

definition calls :: "event list \<Rightarrow> event list" where
  "calls es = filter (\<lambda>e. \<not> is_output e) es"

fun stderr_text :: "event list \<Rightarrow> string list" where
  "stderr_text [] = []"
| "stderr_text (Fprintf_stderr f as # es) = f # stderr_text es"
| "stderr_text (e # es) = stderr_text es"

definition stderr_after :: "('a \<times> state) option \<Rightarrow> string list option" where
  "stderr_after r = map_option (\<lambda>(v, st). stderr_text (trace st)) r"

text \<open>An environment in which the module loads and exports the given names.\<close>

definition env_exporting :: "string list \<Rightarrow> host_env" where
  "env_exporting names =
     \<lparr>modules = (\<lambda>path. if path = ''./libshared14.so'' then Some names else None),
      dlerror_text = ''cannot open shared object file'',
      literal_addr = 4096, buffer_addr = 8192\<rparr>"

text \<open>The same, with every required name exported but one.\<close>

definition env_missing :: "string \<Rightarrow> host_env" where
  "env_missing name = env_exporting (removeAll name required_exports)"

definition env_without_module :: host_env where
  "env_without_module =
     \<lparr>modules = (\<lambda>path. None),
      dlerror_text = ''./libshared14.so: cannot open shared object file: No such file or directory'',
      literal_addr = 4096, buffer_addr = 8192\<rparr>"

section \<open>Properties\<close>

subsection \<open>The uppercase step on bytes\<close>

lemma sint_byte:
  fixes c :: byte
  shows "sint c = (if uint c < 128 then uint c else uint c - 256)"
proof -
  have b: "0 \<le> uint c" "uint c < 256"
    using uint_lt2p [of c] by simp_all
  have s: "sint c = (uint c + 128) mod 256 - 128"
    by (simp add: sint_uint signed_take_bit_eq_take_bit_shift take_bit_eq_mod)
  show ?thesis
  proof (cases "uint c < 128")
    case True
    with b have "(uint c + 128) mod 256 = uint c + 128"
      by (simp add: mod_pos_pos_trivial)
    with True s show ?thesis by simp
  next
    case False
    have "uint c + 128 = uint c - 128 + 256"
      by simp
    then have "(uint c + 128) mod 256 = (uint c - 128 + 256) mod 256"
      by (rule arg_cong)
    also have "\<dots> = (uint c - 128) mod 256"
      by (simp only: mod_add_self2)
    also from False b have "\<dots> = uint c - 128"
      by (simp add: mod_pos_pos_trivial)
    finally show ?thesis using False s by simp
  qed
qed

lemma byte_range_uint:
  fixes c :: byte
  shows "97 \<le> c \<and> c \<le> 122 \<longleftrightarrow> 97 \<le> uint c \<and> uint c \<le> 122"
  by (simp add: word_le_def)

lemma uppercase_unsigned:
  "uppercase c = (if 97 \<le> c \<and> c \<le> 122 then c - 32 else c)"
proof -
  have w: "word_of_int (uint c - 97 + 65) = c - 32"
    by simp
  show ?thesis
  proof (cases "uint c < 128")
    case True
    then show ?thesis
      unfolding uppercase_def byte_range_uint sint_byte by (simp add: w)
  next
    case False
    then have "\<not> (97 \<le> uint c - 256 \<and> uint c - 256 \<le> 122)" "\<not> (97 \<le> uint c \<and> uint c \<le> 122)"
      using uint_lt2p [of c] by simp_all
    with False show ?thesis
      unfolding uppercase_def byte_range_uint sint_byte by simp
  qed
qed

lemma alphabet_by_position:
  "ascii_lowercase = map (\<lambda>k. of_nat (97 + k)) [0..<26]"
  "ascii_uppercase = map (\<lambda>k. of_nat (65 + k)) [0..<26]"
  by (simp_all add: ascii_lowercase_def ascii_uppercase_def bytes_of_def upt_rec)

lemma map_of_position:
  assumes "inj_on f (set xs)" "k \<in> set xs"
  shows "map_of (map (\<lambda>k. (f k, g k)) xs) (f k) = Some (g k)"
  using assms by (induction xs) (auto simp: inj_on_def)

lemma map_of_no_position:
  assumes "c \<notin> f ` set xs"
  shows "map_of (map (\<lambda>k. (f k, g k)) xs) c = None"
  using assms by (simp add: map_of_eq_None_iff image_image)

lemma unat_letter:
  assumes "k < 26"
  shows "unat (of_nat (97 + k) :: byte) = 97 + k"
proof -
  have "unat (of_nat (97 + k) :: byte) = (97 + k) mod 2 ^ LENGTH(8)"
    by (rule unat_of_nat)
  also from assms have "\<dots> = 97 + k"
    by simp
  finally show ?thesis .
qed

lemma to_upper_unsigned:
  "to_upper c = (if 97 \<le> c \<and> c \<le> 122 then c - 32 else c)"
proof -
  let ?f = "\<lambda>k. of_nat (97 + k) :: byte"
  let ?g = "\<lambda>k. of_nat (65 + k) :: byte"
  have table: "zip ascii_lowercase ascii_uppercase = map (\<lambda>k. (?f k, ?g k)) [0..<26]"
    unfolding alphabet_by_position by (simp only: zip_map_map zip_same_conv_map map_map comp_def split_conv)
  have inj: "inj_on ?f (set [0..<26])"
  proof (rule inj_onI)
    fix j k assume "j \<in> set [0..<26]" "k \<in> set [0..<26]" "?f j = ?f k"
    then have "unat (?f j) = unat (?f k)" "j < 26" "k < 26" by simp_all
    then show "j = k" by (simp only: unat_letter)
  qed
  show ?thesis
  proof (cases "97 \<le> c \<and> c \<le> 122")
    case True
    then have u: "97 \<le> unat c" "unat c \<le> 122"
      by (simp_all add: word_le_nat_alt)
    define k where "k = unat c - 97"
    from u have k: "k \<in> set [0..<26]" and c: "unat c = 97 + k"
      by (simp_all add: k_def)
    have "?f k = of_nat (unat c)"
      by (simp only: c)
    then have fk: "?f k = c"
      by simp
    have "?g k = of_nat (unat c - 32)"
      using u by (simp add: k_def)
    also have "\<dots> = c - 32"
      using u by (simp add: of_nat_diff)
    finally have gk: "?g k = c - 32" .
    from map_of_position [OF inj k, of ?g] True show ?thesis
      by (simp only: to_upper_def table fk gk) simp
  next
    case False
    have "c \<notin> ?f ` set [0..<26]"
    proof
      assume "c \<in> ?f ` set [0..<26]"
      then obtain k where "k < 26" "c = ?f k" by auto
      then have "unat c = 97 + k" by (simp only: unat_letter)
      with \<open>k < 26\<close> have "97 \<le> unat c" "unat c \<le> 122" by simp_all
      then have "97 \<le> c \<and> c \<le> 122" by (simp add: word_le_nat_alt)
      with False show False ..
    qed
    from map_of_no_position [OF this, of ?g] False show ?thesis
      by (simp only: to_upper_def table) simp
  qed
qed

lemma uppercase_to_upper: "uppercase c = to_upper c"
  by (simp only: uppercase_unsigned to_upper_unsigned)

lemma uppercase_nonzero: "c \<noteq> 0 \<Longrightarrow> uppercase c \<noteq> 0"
proof -
  assume c: "c \<noteq> 0"
  show ?thesis
  proof (cases "97 \<le> c \<and> c \<le> 122")
    case True
    then have "c \<noteq> 32" by auto
    then have "c - 32 \<noteq> 0" by simp
    with True show ?thesis by (simp add: uppercase_unsigned)
  next
    case False
    with c show ?thesis by (auto simp: uppercase_unsigned)
  qed
qed

lemma to_upper_fixed:
  assumes "c \<notin> set ascii_lowercase"
  shows "to_upper c = c"
proof -
  have "length ascii_lowercase = length ascii_uppercase"
    by (simp add: alphabet_by_position)
  with assms have "map_of (zip ascii_lowercase ascii_uppercase) c = None"
    by (simp add: map_of_zip_is_None)
  then show ?thesis by (simp add: to_upper_def)
qed

lemma reverse_upper_fixed:
  assumes "no_lowercase s"
  shows "reverse_upper s = rev s"
  using assms
  by (auto simp: reverse_upper_def no_lowercase_def list_all_iff to_upper_fixed intro!: map_idI)

lemma reverse_upper_twice:
  assumes "no_lowercase s"
  shows "reverse_upper (reverse_upper s) = s"
proof -
  from assms have "no_lowercase (rev s)"
    by (simp add: no_lowercase_def list_all_iff)
  then have "reverse_upper (rev s) = rev (rev s)" by (rule reverse_upper_fixed)
  with assms show ?thesis by (simp add: reverse_upper_fixed)
qed

lemma length_reverse_upper: "length (reverse_upper s) = length s"
  by (simp add: reverse_upper_def)

subsection \<open>Strings and \<open>strlen\<close>\<close>

lemma string_at_append_nth:
  "string_at m p s \<Longrightarrow> k < length s \<Longrightarrow> m (p + of_nat k) = s ! k \<and> s ! k \<noteq> 0"
proof (induction s arbitrary: p k)
  case Nil
  then show ?case by simp
next
  case (Cons c cs)
  show ?case
  proof (cases k)
    case 0
    with Cons.prems show ?thesis by simp
  next
    case (Suc j)
    with Cons.prems have "string_at m (p + 1) cs" "j < length cs" by simp_all
    from Cons.IH [OF this] Suc show ?thesis by (simp add: ac_simps)
  qed
qed

lemma string_at_terminator:
  "string_at m p s \<Longrightarrow> m (p + of_nat (length s)) = 0"
proof (induction s arbitrary: p)
  case Nil
  then show ?case by simp
next
  case (Cons c cs)
  then have "string_at m (p + 1) cs" by simp
  from Cons.IH [OF this] show ?case by (simp add: ac_simps)
qed

lemma string_at_length:
  assumes "string_at m p s"
  shows "length s < 2 ^ 64"
proof (rule ccontr)
  assume "\<not> length s < 2 ^ 64"
  then have k: "length s - 2 ^ 64 < length s" and ge: "2 ^ 64 \<le> length s" by simp_all
  have "(of_nat (length s) :: addr) = of_nat (length s - 2 ^ 64) + of_nat (2 ^ 64)"
    using ge by (metis le_add_diff_inverse2 of_nat_add)
  then have "(of_nat (length s) :: addr) = of_nat (length s - 2 ^ 64)"
    by simp
  with string_at_terminator [OF assms] string_at_append_nth [OF assms k]
  show False by simp
qed

lemma strlen_from_string_at:
  "string_at m (p + n) s \<Longrightarrow> strlen_from m p n = Some (n + of_nat (length s))"
proof (induction s arbitrary: n)
  case Nil
  then show ?case by (subst strlen_from.simps) simp
next
  case (Cons c cs)
  then have "string_at m (p + (n + 1)) cs" by (simp add: add.assoc)
  from Cons.IH [OF this] Cons.prems show ?case
    by (subst strlen_from.simps) (simp add: ac_simps)
qed

lemma strlen_string_at:
  "string_at m p s \<Longrightarrow> strlen m p = Some (of_nat (length s))"
  using strlen_from_string_at [of m p 0 s] by (simp add: strlen_def)

lemma string_at_intro:
  "(\<And>k. k < length s \<Longrightarrow> m (p + of_nat k) = s ! k \<and> s ! k \<noteq> 0) \<Longrightarrow>
   m (p + of_nat (length s)) = 0 \<Longrightarrow> string_at m p s"
proof (induction s arbitrary: p)
  case Nil
  then show ?case by simp
next
  case (Cons c cs)
  from Cons.prems(1) [of 0] have h: "m p = c" "c \<noteq> 0" by simp_all
  have "string_at m (p + 1) cs"
  proof (rule Cons.IH)
    fix k assume "k < length cs"
    then have "Suc k < length (c # cs)" by simp
    from Cons.prems(1) [OF this] show "m (p + 1 + of_nat k) = cs ! k \<and> cs ! k \<noteq> 0"
      by (simp add: ac_simps)
  next
    from Cons.prems(2) show "m (p + 1 + of_nat (length cs)) = 0"
      by (simp add: ac_simps)
  qed
  with h show ?case by simp
qed

lemma of_nat_addr_less:
  assumes "k < n" "n < 2 ^ 64"
  shows "(of_nat k :: addr) < of_nat n"
  using assms by (simp add: word_less_nat_alt unat_of_nat take_bit_nat_eq_self)

lemma unat_of_nat_addr:
  assumes "n < 2 ^ 64"
  shows "unat (of_nat n :: addr) = n"
  using assms by (simp add: unat_of_nat take_bit_nat_eq_self)

lemma ucast_length:
  assumes "n < 2 ^ 64"
  shows "(ucast (of_nat n :: addr) :: cint) = of_nat n"
  using assms by (simp add: unsigned_of_nat take_bit_nat_eq_self)

lemma length_less_capacity:
  assumes "n < 2 ^ 64"
  shows "(of_nat n :: addr) < w \<longleftrightarrow> n < unat w"
  using assms by (simp add: word_less_nat_alt unat_of_nat_addr)

lemma store_bytes_other:
  "(\<forall>k<length bs. a \<noteq> p + of_nat k) \<Longrightarrow> store_bytes m p bs a = m a"
proof (induction bs arbitrary: m p)
  case Nil
  then show ?case by simp
next
  case (Cons c cs)
  from Cons.prems [rule_format, of 0] have ne: "a \<noteq> p" by simp
  have "\<forall>k<length cs. a \<noteq> p + 1 + of_nat k"
  proof (intro allI impI)
    fix k assume "k < length cs"
    then have "Suc k < length (c # cs)" by simp
    from Cons.prems [rule_format, OF this] show "a \<noteq> p + 1 + of_nat k"
      by (simp add: ac_simps)
  qed
  from Cons.IH [OF this] ne show ?case by simp
qed

lemma string_at_store_bytes:
  "0 \<notin> set s \<Longrightarrow> length s < 2 ^ 64 \<Longrightarrow> string_at (store_bytes m p (s @ [0])) p s"
proof (induction s arbitrary: m p)
  case Nil
  then show ?case by simp
next
  case (Cons c cs)
  then have c: "c \<noteq> 0" and cs: "0 \<notin> set cs" "length cs < 2 ^ 64" by auto
  have "\<forall>k<length (cs @ [0]). p \<noteq> p + 1 + of_nat k"
  proof (intro allI impI)
    fix k assume "k < length (cs @ [0])"
    with Cons.prems(2) have "Suc k < 2 ^ 64" by simp
    then have "unat (of_nat (Suc k) :: addr) = Suc k" by (rule unat_of_nat_addr)
    then have "(of_nat (Suc k) :: addr) \<noteq> 0" by (metis unat_0 nat.distinct(1))
    then show "p \<noteq> p + 1 + of_nat k" by (simp add: ac_simps)
  qed
  then have "store_bytes (m(p := c)) (p + 1) (cs @ [0]) p = (m(p := c)) p"
    by (rule store_bytes_other)
  then have first: "store_bytes (m(p := c)) (p + 1) (cs @ [0]) p = c"
    by simp
  have rest: "string_at (store_bytes (m(p := c)) (p + 1) (cs @ [0])) (p + 1) cs"
    using cs by (rule Cons.IH)
  from first rest c show ?case
    by (simp only: append_Cons store_bytes.simps string_at.simps) simp
qed

lemma string_at_with_string:
  "0 \<notin> set s \<Longrightarrow> length s < 2 ^ 64 \<Longrightarrow> string_at (mem (with_string p s st)) p s"
  by (simp add: with_string_def string_at_store_bytes)

lemma disjoint_ranges_neq:
  assumes "disjoint_ranges p m q n" "j < m" "k < n"
  shows "p + of_nat j \<noteq> q + of_nat k"
proof
  assume e: "p + of_nat j = q + of_nat k"
  have a: "q - p = of_nat j - of_nat k"
    using e by (simp add: algebra_simps)
  have b: "p - q = of_nat k - of_nat j"
    using e by (simp add: algebra_simps)
  from assms(1) have le: "m \<le> unat (q - p)" "n \<le> unat (p - q)"
    by (simp_all add: disjoint_ranges_def)
  have bound: "unat (of_nat i :: addr) \<le> i" for i
    by (simp add: unat_of_nat)
  show False
  proof (cases "k \<le> j")
    case True
    then have "(of_nat j - of_nat k :: addr) = of_nat (j - k)" by (simp add: of_nat_diff)
    then have "unat (q - p) \<le> j - k" using bound [of "j - k"] by (simp add: a)
    with le(1) assms(2) show ?thesis by simp
  next
    case False
    then have "(of_nat k - of_nat j :: addr) = of_nat (k - j)" by (simp add: of_nat_diff)
    then have "unat (p - q) \<le> k - j" using bound [of "k - j"] by (simp add: b)
    with le(2) assms(3) show ?thesis by simp
  qed
qed

subsection \<open>The counter in the store\<close>

lemma bytes_of_int:
  fixes v :: cint
  shows "ucast (ucast v :: byte) OR push_bit 8 (ucast (ucast (drop_bit 8 v) :: byte))
       OR push_bit 16 (ucast (ucast (drop_bit 16 v) :: byte))
       OR push_bit 24 (ucast (ucast (drop_bit 24 v) :: byte)) = v" (is "?w = v")
proof (rule bit_word_eqI)
  fix n assume "n < LENGTH(32)"
  then have n: "n < 32" by simp
  consider "n < 8" | "8 \<le> n" "n < 16" | "16 \<le> n" "n < 24" | "24 \<le> n" "n < 32"
    using n by linarith
  then show "bit ?w n = bit v n"
    by cases (auto simp: bit_simps)
qed

lemma mem_store_int:
  "mem (store_int st a v) =
     (mem st)(a := ucast v, a + 1 := ucast (drop_bit 8 v), a + 2 := ucast (drop_bit 16 v),
              a + 3 := ucast (drop_bit 24 v))"
  by (simp add: store_int_def store_byte_def)

lemma store_int_fields:
  "lib_global_counter_addr (store_int st a v) = lib_global_counter_addr st"
  "trace (store_int st a v) = trace st"
  "stores (store_int st a v) = stores st @ [a, a + 1, a + 2, a + 3]"
  by (simp_all add: store_int_def store_byte_def)

lemma load_store_int: "load_int (mem (store_int st a v)) a = v"
  by (simp add: mem_store_int load_int_def bytes_of_int)

lemma load_int_cong:
  assumes "m' a = m a" "m' (a + 1) = m (a + 1)" "m' (a + 2) = m (a + 2)" "m' (a + 3) = m (a + 3)"
  shows "load_int m' a = load_int m a"
  using assms by (simp add: load_int_def)

lemma counter_increment:
  "lib_global_counter (lib_increment_counter st) = lib_global_counter st + 1"
  "lib_global_counter_addr (lib_increment_counter st) = lib_global_counter_addr st"
  by (simp_all add: lib_increment_counter_def lib_global_counter_def store_int_fields
      load_store_int)

lemma counter_increments:
  "lib_global_counter ((lib_increment_counter ^^ n) st) = lib_global_counter st + of_nat n"
  by (induction n) (simp_all add: counter_increment)

lemma counter_module_load: "lib_global_counter (module_load st) = 0"
  by (simp add: module_load_def lib_constructor_def emit_def lib_global_counter_def
      store_int_fields load_store_int)

lemma counter_with_counter: "lib_global_counter (with_counter v st) = v"
  by (simp add: with_counter_def lib_global_counter_def store_int_fields load_store_int)

subsection \<open>The loop of \<open>lib_process_data\<close>\<close>

lemma process_loop_trace:
  "trace (process_loop input out len i st) = trace st"
proof (induction input out len i st rule: process_loop.induct)
  case (1 input out len i st)
  then show ?case
    by (subst process_loop.simps) (simp add: store_byte_def)
qed

lemma unat_succ:
  fixes i len :: addr
  assumes "i < len"
  shows "unat (i + 1) = Suc (unat i)" and "unat i < unat len"
proof -
  from assms show l: "unat i < unat len" by (simp add: word_less_nat_alt)
  have "unat len < 2 ^ 64" using unsigned_less [of len, where ?'a = nat] by simp
  with l have "Suc (unat i) < 2 ^ 64" by simp
  then show "unat (i + 1) = Suc (unat i)"
    by (simp add: unat_word_ariths)
qed

lemma process_loop_stores:
  "i \<le> len \<Longrightarrow>
   stores (process_loop input out len i st) =
     stores st @ map (\<lambda>k. out + of_nat k) [unat i..<unat len]"
proof (induction input out len i st rule: process_loop.induct)
  case (1 input out len i st)
  show ?case
  proof (cases "i < len")
    case True
    then have le: "i + 1 \<le> len" by (rule inc_le)
    note u = unat_succ [OF True]
    from "1.IH" [OF True le] u True show ?thesis
      by (subst process_loop.simps) (simp add: store_byte_def upt_conv_Cons)
  next
    case False
    with "1.prems" have "i = len" by simp
    then show ?thesis by (subst process_loop.simps) simp
  qed
qed

lemma separated_neq:
  assumes "separated p q n" "k \<le> n" "j \<le> n"
  shows "p + k \<noteq> q + j"
proof
  assume e: "p + k = q + j"
  have a: "q - p = k - j"
    using e by (simp add: algebra_simps)
  have b: "p - q = j - k"
    using e by (simp add: algebra_simps)
  from assms(1) have lt: "n < q - p" "n < p - q"
    by (simp_all add: separated_def)
  show False
  proof (cases "j \<le> k")
    case True
    then have "k - j \<le> k" by (rule word_sub_le)
    then have "k - j \<le> n" using assms(2) by (rule order_trans)
    with lt(1) show ?thesis unfolding a using leD by blast
  next
    case False
    then have "k \<le> j" by simp
    then have "j - k \<le> j" by (rule word_sub_le)
    then have "j - k \<le> n" using assms(3) by (rule order_trans)
    with lt(2) show ?thesis unfolding b using leD by blast
  qed
qed

lemma mirror_index_less:
  fixes d len :: addr
  assumes "d < len"
  shows "len - 1 - d < len"
proof -
  from assms have "d \<le> len - 1" by (rule less_imp_less_eq_dec)
  then have "len - 1 - d \<le> len - 1" by (rule word_sub_le)
  moreover from assms have "len \<noteq> 0" by auto
  then have "len - 1 < len" by (simp add: word_less_nat_alt unat_minus_one unat_gt_0)
  ultimately show ?thesis by simp
qed

lemma succ_le_iff:
  fixes i d len :: addr
  assumes "i < len"
  shows "i + 1 \<le> d \<longleftrightarrow> i < d"
proof -
  from assms have "i \<noteq> - 1" by (metis word_order.extremum_strict)
  then show ?thesis by (simp add: inc_less_eq_iff)
qed

lemma process_loop_mem:
  "(\<forall>k j. k < len \<longrightarrow> j < len \<longrightarrow> input + k \<noteq> out + j) \<Longrightarrow>
   mem (process_loop input out len i st) a =
     (if i \<le> a - out \<and> a - out < len
      then uppercase (mem st (input + (len - 1 - (a - out))))
      else mem st a)"
proof (induction input out len i st rule: process_loop.induct)
  case (1 input out len i st)
  let ?c = "uppercase (mem st (input + (len - 1 - i)))"
  let ?st1 = "store_byte st (out + i) ?c"
  let ?d = "a - out"
  show ?case
  proof (cases "i < len")
    case False
    then have "\<not> (i \<le> ?d \<and> ?d < len)" by auto
    with False show ?thesis by (subst process_loop.simps) auto
  next
    case True
    have unfold: "process_loop input out len i st = process_loop input out len (i + 1) ?st1"
      using True by (subst process_loop.simps) simp
    have m1: "mem ?st1 x = (if x = out + i then ?c else mem st x)" for x
      by (simp add: store_byte_def)
    have eq: "a = out + i \<longleftrightarrow> ?d = i" by auto
    note ih = "1.IH" [OF True "1.prems"]
    show ?thesis
    proof (cases "i + 1 \<le> ?d \<and> ?d < len")
      case in_rest: True
      then have "len - 1 - ?d < len" by (simp add: mirror_index_less)
      with "1.prems" True have "input + (len - 1 - ?d) \<noteq> out + i" by blast
      moreover from in_rest True have "i \<le> ?d" by (simp add: succ_le_iff less_imp_le)
      ultimately show ?thesis using ih in_rest by (simp add: unfold m1)
    next
      case not_rest: False
      show ?thesis
      proof (cases "?d = i")
        case True
        with \<open>i < len\<close> ih not_rest eq show ?thesis by (simp add: unfold m1)
      next
        case False
        with \<open>i < len\<close> not_rest have "\<not> (i \<le> ?d \<and> ?d < len)"
          by (auto simp: succ_le_iff)
        with False ih not_rest eq show ?thesis by (auto simp: unfold m1)
      qed
    qed
  qed
qed

lemma process_loop_mem_other:
  "\<not> (i \<le> a - out \<and> a - out < len) \<Longrightarrow> mem (process_loop input out len i st) a = mem st a"
proof (induction input out len i st rule: process_loop.induct)
  case (1 input out len i st)
  show ?case
  proof (cases "i < len")
    case False
    then show ?thesis by (subst process_loop.simps) simp
  next
    case True
    from "1.prems" True have ne: "a \<noteq> out + i" by auto
    from "1.prems" True have "\<not> (i + 1 \<le> a - out \<and> a - out < len)"
      by (auto simp: succ_le_iff less_imp_le)
    from "1.IH" [OF True this] ne True show ?thesis
      by (subst process_loop.simps) (simp add: store_byte_def)
  qed
qed

subsection \<open>\<open>lib_process_data\<close>\<close>

lemma lib_process_data_valid:
  assumes "string_at (mem st) input s" "input \<noteq> 0" "output \<noteq> 0" "length s < unat output_size"
  shows "lib_process_data input output output_size st =
           Some (Inr (of_nat (length s)),
                 store_byte (process_loop input output (of_nat (length s)) 0 st)
                   (output + of_nat (length s)) 0)"
proof -
  note n = string_at_length [OF assms(1)]
  from assms(4) have "output_size \<noteq> 0" by auto
  moreover from n assms(4) have "\<not> output_size \<le> of_nat (length s)"
    by (simp add: length_less_capacity not_le)
  ultimately show ?thesis
    using assms(2,3) n
    by (simp add: lib_process_data_def strlen_string_at [OF assms(1)] ucast_length)
qed

lemma lib_process_data_too_small:
  assumes "string_at (mem st) input s" "input \<noteq> 0" "output \<noteq> 0" "output_size \<noteq> 0"
    "unat output_size \<le> length s"
  shows "lib_process_data input output output_size st = Some (Inl BufferTooSmall, st)"
proof -
  note n = string_at_length [OF assms(1)]
  from n assms(5) have "output_size \<le> of_nat (length s)"
    by (simp add: word_le_nat_alt unat_of_nat_addr)
  then show ?thesis
    using assms(2,3,4)
    by (simp add: lib_process_data_def strlen_string_at [OF assms(1)])
qed

lemma written_string:
  assumes s: "string_at (mem st) input s"
    and sep: "separated input out (of_nat (length s))"
  shows "string_at
           (mem (store_byte (process_loop input out (of_nat (length s)) 0 st)
                   (out + of_nat (length s)) 0))
           out (reverse_upper s)"
proof (rule string_at_intro)
  let ?n = "length s"
  let ?len = "of_nat ?n :: addr"
  let ?st1 = "process_loop input out ?len 0 st"
  note n = string_at_length [OF s]
  have disj: "\<forall>k j. k < ?len \<longrightarrow> j < ?len \<longrightarrow> input + k \<noteq> out + j"
    using separated_neq [OF sep] by (simp add: less_imp_le)
  show "mem (store_byte ?st1 (out + ?len) 0) (out + of_nat (length (reverse_upper s))) = 0"
    by (simp add: store_byte_def reverse_upper_def)
  fix k assume "k < length (reverse_upper s)"
  then have k: "k < ?n" by (simp add: reverse_upper_def)
  from k n have lt: "(of_nat k :: addr) < ?len" by (rule of_nat_addr_less)
  then have ne: "(of_nat k :: addr) \<noteq> ?len" by simp
  from k have idx: "?len - 1 - of_nat k = (of_nat (?n - 1 - k) :: addr)"
    by (simp add: of_nat_diff)
  from k have m: "?n - 1 - k < ?n" by simp
  have "mem (store_byte ?st1 (out + ?len) 0) (out + of_nat k) = mem ?st1 (out + of_nat k)"
    using ne by (simp add: store_byte_def)
  also have "\<dots> = uppercase (mem st (input + (?len - 1 - of_nat k)))"
    using lt by (simp add: process_loop_mem [OF disj])
  also have "\<dots> = uppercase (s ! (?n - 1 - k))"
    using string_at_append_nth [OF s m] by (simp add: idx)
  also have "\<dots> = reverse_upper s ! k"
    using k by (simp add: reverse_upper_def rev_nth uppercase_to_upper)
  finally have eq: "mem (store_byte ?st1 (out + ?len) 0) (out + of_nat k) = reverse_upper s ! k" .
  have "uppercase (s ! (?n - 1 - k)) \<noteq> 0"
    using string_at_append_nth [OF s m] by (simp add: uppercase_nonzero)
  moreover have "reverse_upper s ! k = uppercase (s ! (?n - 1 - k))"
    using k by (simp add: reverse_upper_def rev_nth uppercase_to_upper)
  ultimately show "mem (store_byte ?st1 (out + ?len) 0) (out + of_nat k) = reverse_upper s ! k
                   \<and> reverse_upper s ! k \<noteq> 0"
    using eq by simp
qed

lemma lib_process_data_cases:
  assumes "lib_process_data input output output_size st = Some (r, st')"
  obtains (invalid) "input = 0 \<or> output = 0 \<or> output_size = 0"
      "r = Inl InvalidArgument" "st' = st"
    | (small) len where "input \<noteq> 0" "output \<noteq> 0" "output_size \<noteq> 0"
      "strlen (mem st) input = Some len" "output_size \<le> len"
      "r = Inl BufferTooSmall" "st' = st"
    | (written) len where "input \<noteq> 0" "output \<noteq> 0" "output_size \<noteq> 0"
      "strlen (mem st) input = Some len" "len < output_size"
      "r = Inr (ucast len)"
      "st' = store_byte (process_loop input output len 0 st) (output + len) 0"
proof (cases "input = 0 \<or> output = 0 \<or> output_size = 0")
  case True
  with assms have "r = Inl InvalidArgument" "st' = st"
    by (simp_all add: lib_process_data_def)
  with True show ?thesis by (rule invalid)
next
  case False
  then have args: "input \<noteq> 0" "output \<noteq> 0" "output_size \<noteq> 0" by simp_all
  from assms False obtain len where len: "strlen (mem st) input = Some len"
    by (cases "strlen (mem st) input") (simp_all add: lib_process_data_def)
  show ?thesis
  proof (cases "output_size \<le> len")
    case True
    with assms False len have "r = Inl BufferTooSmall" "st' = st"
      by (simp_all add: lib_process_data_def)
    with args len True show ?thesis by (rule small)
  next
    case False
    then have lt: "len < output_size" by simp
    from assms args len False have "r = Inr (ucast len)"
      "st' = store_byte (process_loop input output len 0 st) (output + len) 0"
      by (simp_all add: lib_process_data_def)
    with args len lt show ?thesis by (rule written)
  qed
qed

lemma lib_process_data_trace:
  assumes "lib_process_data input output output_size st = Some (r, st')"
  shows "trace st' = trace st"
  using assms
  by (cases rule: lib_process_data_cases) (simp_all add: store_byte_def process_loop_trace)

lemma written_stores:
  "stores (store_byte (process_loop input out len 0 st) (out + len) 0) =
     stores st @ map (\<lambda>k. out + of_nat k) [0..<Suc (unat len)]"
  by (simp add: store_byte_def process_loop_stores)

lemma written_mem_other:
  assumes "\<forall>k<Suc (unat len). a \<noteq> out + of_nat k"
  shows "mem (store_byte (process_loop input out len 0 st) (out + len) 0) a = mem st a"
proof -
  from assms [rule_format, of "unat len"] have ne: "a \<noteq> out + len" by simp
  have "\<not> a - out < len"
  proof
    assume lt: "a - out < len"
    then have "unat (a - out) < Suc (unat len)" by (simp add: word_less_nat_alt)
    from assms [rule_format, OF this] show False by simp
  qed
  then have "mem (process_loop input out len 0 st) a = mem st a"
    by (simp add: process_loop_mem_other)
  with ne show ?thesis by (simp add: store_byte_def)
qed

lemma lib_process_data_returns:
  assumes "input = 0 \<or> out = 0 \<or> output_size = 0 \<or> string_at (mem st) input s"
  shows "\<exists>r st'. lib_process_data input out output_size st = Some (r, st')"
proof (cases "input = 0 \<or> out = 0 \<or> output_size = 0")
  case True
  then show ?thesis by (simp add: lib_process_data_def)
next
  case False
  with assms have "string_at (mem st) input s" by simp
  from strlen_string_at [OF this] False show ?thesis
    by (simp add: lib_process_data_def)
qed

lemma of_nat_addr_le:
  assumes "k \<le> n" "n < 2 ^ 64"
  shows "(of_nat k :: addr) \<le> of_nat n"
  using assms by (simp add: word_le_nat_alt unat_of_nat_addr)

lemma input_preserved:
  assumes s: "string_at (mem st) input s"
    and sep: "separated input out (of_nat (length s))"
    and k: "k \<le> length s"
  shows "mem (store_byte (process_loop input out (of_nat (length s)) 0 st)
                (out + of_nat (length s)) 0) (input + of_nat k)
         = mem st (input + of_nat k)"
proof (rule written_mem_other, intro allI impI)
  note n = string_at_length [OF s]
  fix j assume "j < Suc (unat (of_nat (length s) :: addr))"
  with n have j: "j \<le> length s" by (simp add: unat_of_nat_addr)
  from k n have "(of_nat k :: addr) \<le> of_nat (length s)" by (rule of_nat_addr_le)
  moreover from j n have "(of_nat j :: addr) \<le> of_nat (length s)" by (rule of_nat_addr_le)
  ultimately show "input + of_nat k \<noteq> out + of_nat j"
    by (rule separated_neq [OF sep])
qed

lemma input_string_preserved:
  assumes s: "string_at (mem st) input s"
    and sep: "separated input out (of_nat (length s))"
  shows "string_at (mem (store_byte (process_loop input out (of_nat (length s)) 0 st)
                (out + of_nat (length s)) 0)) input s"
proof (rule string_at_intro)
  fix k assume k: "k < length s"
  then have "k \<le> length s" by simp
  from input_preserved [OF s sep this] string_at_append_nth [OF s k]
  show "mem (store_byte (process_loop input out (of_nat (length s)) 0 st)
                (out + of_nat (length s)) 0) (input + of_nat k) = s ! k \<and> s ! k \<noteq> 0"
    by simp
next
  from input_preserved [OF s sep order_refl] string_at_terminator [OF s]
  show "mem (store_byte (process_loop input out (of_nat (length s)) 0 st)
                (out + of_nat (length s)) 0) (input + of_nat (length s)) = 0"
    by simp
qed

lemma process_loop_counter_addr:
  "lib_global_counter_addr (process_loop input out len i st) = lib_global_counter_addr st"
proof (induction input out len i st rule: process_loop.induct)
  case (1 input out len i st)
  then show ?case
    by (subst process_loop.simps) (simp add: store_byte_def)
qed

lemma lib_process_data_counter_addr:
  assumes "lib_process_data input out output_size st = Some (r, st')"
  shows "lib_global_counter_addr st' = lib_global_counter_addr st"
  using assms
  by (cases rule: lib_process_data_cases)
     (simp_all add: store_byte_def process_loop_counter_addr)

text \<open>The counter keeps its value when the bytes written are not its own.\<close>

lemma written_counter:
  assumes n: "n < 2 ^ 64"
    and d: "disjoint_ranges out (n + 1) (lib_global_counter_addr st) 4"
  shows "lib_global_counter (store_byte (process_loop input out (of_nat n) 0 st)
            (out + of_nat n) 0) = lib_global_counter st"
proof -
  let ?len = "of_nat n :: addr"
  let ?st' = "store_byte (process_loop input out ?len 0 st) (out + ?len) 0"
  let ?c = "lib_global_counter_addr st"
  from n have u: "unat ?len = n" by (simp add: unat_of_nat_addr)
  have same: "mem ?st' (?c + of_nat j) = mem st (?c + of_nat j)" if "j < 4" for j :: nat
  proof (rule written_mem_other, intro allI impI)
    fix k assume "k < Suc (unat ?len)"
    with u have "k < n + 1" by simp
    from disjoint_ranges_neq [OF d this that] show "?c + of_nat j \<noteq> out + of_nat k"
      by simp
  qed
  have addr: "lib_global_counter_addr ?st' = ?c"
    by (simp add: store_byte_def process_loop_counter_addr)
  have "load_int (mem ?st') ?c = load_int (mem st) ?c"
    using same [of 0] same [of 1] same [of 2] same [of 3]
    by (intro load_int_cong) simp_all
  then show ?thesis
    by (simp only: lib_global_counter_def addr)
qed

text \<open>The loop reads nothing but the bytes of the input string.\<close>

lemma process_loop_agree:
  "(\<forall>k<len. input + k \<in> A) \<Longrightarrow> (\<forall>a\<in>A. mem st1 a = mem st2 a) \<Longrightarrow>
   a \<in> A \<or> (\<exists>k. i \<le> k \<and> k < len \<and> a = out + k) \<Longrightarrow>
   mem (process_loop input out len i st1) a = mem (process_loop input out len i st2) a"
proof (induction input out len i st1 arbitrary: st2 A rule: process_loop.induct)
  case (1 input out len i st1)
  show ?case
  proof (cases "i < len")
    case False
    with "1.prems" show ?thesis
      by (simp add: process_loop.simps [of _ _ len i]) auto
  next
    case True
    let ?r = "input + (len - 1 - i)"
    let ?s1 = "store_byte st1 (out + i) (uppercase (mem st1 ?r))"
    let ?s2 = "store_byte st2 (out + i) (uppercase (mem st2 ?r))"
    from True have "len - 1 - i < len"
      by (rule mirror_index_less)
    with "1.prems"(1,2) have r: "mem st1 ?r = mem st2 ?r" by blast
    have in': "\<forall>k<len. input + k \<in> insert (out + i) A"
      using "1.prems"(1) by simp
    have agree': "\<forall>a\<in>insert (out + i) A. mem ?s1 a = mem ?s2 a"
      using "1.prems"(2) r by (simp add: store_byte_def)
    have a': "a \<in> insert (out + i) A \<or> (\<exists>k. i + 1 \<le> k \<and> k < len \<and> a = out + k)"
    proof (cases "a \<in> A")
      case True
      then show ?thesis by simp
    next
      case False
      with "1.prems"(3) obtain k where k: "i \<le> k" "k < len" "a = out + k" by blast
      show ?thesis
      proof (cases "k = i")
        case True
        with k show ?thesis by simp
      next
        case False
        with k(1) have "i < k" by simp
        with \<open>i < len\<close> have "i + 1 \<le> k" by (simp add: succ_le_iff)
        with k show ?thesis by blast
      qed
    qed
    from "1.IH" [OF True in' agree' a'] True show ?thesis
      by (simp add: process_loop.simps [of _ _ len i])
  qed
qed

lemma string_at_agree:
  assumes s: "string_at m input s"
    and eq: "\<forall>k\<le>length s. m2 (input + of_nat k) = m (input + of_nat k)"
  shows "string_at m2 input s"
proof (rule string_at_intro)
  fix k assume k: "k < length s"
  with eq string_at_append_nth [OF s k] show "m2 (input + of_nat k) = s ! k \<and> s ! k \<noteq> 0"
    by simp
next
  from eq string_at_terminator [OF s] show "m2 (input + of_nat (length s)) = 0"
    by simp
qed

lemma lib_process_data_reads_input_only:
  assumes s: "string_at (mem st) input s"
    and eq: "\<forall>k\<le>length s. mem st2 (input + of_nat k) = mem st (input + of_nat k)"
  shows "returned (lib_process_data input out output_size st2)
           = returned (lib_process_data input out output_size st)"
    and "input \<noteq> 0 \<Longrightarrow> out \<noteq> 0 \<Longrightarrow> length s < unat output_size \<Longrightarrow>
         bytes_after (lib_process_data input out output_size st2) out (length s + 1)
           = bytes_after (lib_process_data input out output_size st) out (length s + 1)"
proof -
  note s2 = string_at_agree [OF s eq]
  note n = string_at_length [OF s]
  let ?len = "of_nat (length s) :: addr"
  show "returned (lib_process_data input out output_size st2)
           = returned (lib_process_data input out output_size st)"
    by (simp add: lib_process_data_def returned_def strlen_string_at [OF s]
        strlen_string_at [OF s2])
  assume args: "input \<noteq> 0" "out \<noteq> 0" "length s < unat output_size"
  let ?A = "{input + k |k. k < ?len}"
  have in_A: "\<forall>k<?len. input + k \<in> ?A" by blast
  have agree: "\<forall>a\<in>?A. mem st2 a = mem st a"
  proof
    fix a assume "a \<in> ?A"
    then obtain k where k: "k < ?len" "a = input + k" by blast
    from k(1) n have "unat k \<le> length s"
      by (simp add: word_less_nat_alt unat_of_nat_addr)
    with eq have "mem st2 (input + of_nat (unat k)) = mem st (input + of_nat (unat k))"
      by blast
    with k(2) show "mem st2 a = mem st a" by simp
  qed
  have loop: "mem (process_loop input out ?len 0 st2) (out + k)
      = mem (process_loop input out ?len 0 st) (out + k)" if "k < ?len" for k
    using that by (intro process_loop_agree [OF in_A agree]) auto
  let ?f2 = "store_byte (process_loop input out ?len 0 st2) (out + ?len) 0"
  let ?f = "store_byte (process_loop input out ?len 0 st) (out + ?len) 0"
  have byte: "mem ?f2 (out + of_nat j) = mem ?f (out + of_nat j)" if "j < length s + 1" for j
  proof (cases "j = length s")
    case True
    then show ?thesis by (simp add: store_byte_def)
  next
    case False
    with that have "j < length s" by simp
    then have "(of_nat j :: addr) < ?len" using n by (rule of_nat_addr_less)
    from loop [OF this] show ?thesis by (simp add: store_byte_def)
  qed
  have "load_bytes (mem ?f2) out (length s + 1) = load_bytes (mem ?f) out (length s + 1)"
    unfolding load_bytes_def
  proof (rule map_cong)
    fix j assume "j \<in> set [0..<length s + 1]"
    then have "j < length s + 1" by auto
    then show "mem ?f2 (out + of_nat j) = mem ?f (out + of_nat j)" by (rule byte)
  qed simp
  then show "bytes_after (lib_process_data input out output_size st2) out (length s + 1)
           = bytes_after (lib_process_data input out output_size st) out (length s + 1)"
    by (simp add: lib_process_data_valid [OF s args] lib_process_data_valid [OF s2 args]
        bytes_after_def)
qed

subsection \<open>The callback and the counter\<close>

lemma internal_calculate_10: "internal_calculate v 10 = v * 11 + 10"
  by (simp add: internal_calculate_def algebra_simps)

lemma sint_small:
  assumes "n < 2 ^ 31"
  shows "sint (of_nat n :: cint) = int n"
proof -
  have "sint (of_nat n :: cint) = signed_take_bit 31 (int n)"
    by (simp add: signed_of_nat)
  also from assms have "\<dots> = int n"
    by (simp add: signed_take_bit_int_eq_self)
  finally show ?thesis .
qed

lemma length_not_error_code:
  assumes "n < 2 ^ 31"
  shows "(of_nat n :: cint) \<noteq> - 1" "(of_nat n :: cint) \<noteq> - 2"
proof -
  from assms have "sint (of_nat n :: cint) = int n" by (rule sint_small)
  then have "0 \<le> sint (of_nat n :: cint)" by simp
  then show "(of_nat n :: cint) \<noteq> - 1" "(of_nat n :: cint) \<noteq> - 2" by auto
qed

subsection \<open>The call of the host, at concrete addresses\<close>

lemma string_at_hello:
  "string_at (mem hello_state) 4096 hello"
  by (simp add: hello_state_def with_string_def initial_state_def hello_def bytes_of_def)

lemma length_hello: "length hello = 21"
  by (simp add: hello_def bytes_of_def)

lemma hello_call:
  "lib_process_data 4096 8192 256 hello_state =
     Some (Inr 21, store_byte (process_loop 4096 8192 21 0 hello_state)
                     8213 0)"
  using lib_process_data_valid [OF string_at_hello, of 8192 256]
  by (simp add: length_hello)

lemma length_long_string: "length long_string = 2 ^ 31"
  by (simp only: long_string_def length_replicate)

lemma string_at_long: "string_at (mem long_state) 4096 long_string"
proof -
  have "0 \<notin> set long_string"
    by (simp only: long_string_def set_replicate_conv_if) simp
  moreover have "length long_string < 2 ^ 64"
    by (simp only: length_long_string) simp
  ultimately show ?thesis
    unfolding long_state_def by (rule string_at_with_string)
qed

lemma printable_long: "printable_ascii long_string"
  by (simp only: printable_ascii_def long_string_def list_all_iff set_replicate_conv_if) simp

lemma string_at_ab: "string_at (mem ab_state) 4096 (bytes_of ''ab'')"
  by (simp add: ab_state_def with_string_def initial_state_def bytes_of_def)

lemma ab_in_place:
  "lib_process_data 4096 4096 3 ab_state =
     Some (Inr 2, store_byte (process_loop 4096 4096 2 0 ab_state) 4098 0)"
  using lib_process_data_valid [OF string_at_ab, of 4096 3]
  by (simp add: bytes_of_def)

lemma ab_in_place_bytes:
  "bytes_after (lib_process_data 4096 4096 3 ab_state) 4096 3 = Some [66, 66, 0]"
  unfolding ab_in_place
  by (simp add: bytes_after_def load_bytes_def process_loop.simps store_byte_def
      uppercase_unsigned ab_state_def with_string_def initial_state_def bytes_of_def upt_rec)

lemma reverse_upper_ab: "reverse_upper (bytes_of ''ab'') = [66, 65]"
  by (simp add: reverse_upper_def to_upper_unsigned bytes_of_def)

lemma ab_shifted:
  "lib_process_data 4096 4097 3 ab_state =
     Some (Inr 2, store_byte (process_loop 4096 4097 2 0 ab_state) 4099 0)"
  using lib_process_data_valid [OF string_at_ab, of 4097 3]
  by (simp add: bytes_of_def)

lemma separated_hello: "separated 4096 8192 21"
  by (simp add: separated_def)

lemma hello_too_small:
  "lib_process_data 4096 8192 21 hello_state = Some (Inl BufferTooSmall, hello_state)"
  using lib_process_data_too_small [OF string_at_hello, of 8192 21]
  by (simp add: length_hello)

lemma reverse_upper_hello: "reverse_upper hello = bytes_of ''YRARBIL CIMANYD OLLEH''"
  by (simp add: reverse_upper_def hello_def to_upper_unsigned bytes_of_def)

lemma printable_ab: "printable_ascii (bytes_of ''ab'')"
  by (simp add: printable_ascii_def bytes_of_def)

lemma string_at_AB: "string_at (mem AB_state) 4096 (bytes_of ''AB'')"
  by (simp add: AB_state_def with_string_def initial_state_def bytes_of_def)

lemma no_lowercase_AB: "no_lowercase (bytes_of ''AB'')"
  by (simp add: no_lowercase_def ascii_lowercase_def bytes_of_def)

lemma AB_in_place:
  "lib_process_data 4096 4096 3 AB_state =
     Some (Inr 2, store_byte (process_loop 4096 4096 2 0 AB_state) 4098 0)"
  using lib_process_data_valid [OF string_at_AB, of 4096 3]
  by (simp add: bytes_of_def)

lemma string_at_BB:
  "string_at (mem (store_byte (process_loop 4096 4096 2 0 AB_state) 4098 0)) 4096 [66, 66]"
  by (simp add: process_loop.simps store_byte_def uppercase_unsigned AB_state_def
      with_string_def initial_state_def bytes_of_def)

lemma BB_in_place:
  "lib_process_data 4096 4096 3 (store_byte (process_loop 4096 4096 2 0 AB_state) 4098 0) =
     Some (Inr 2,
       store_byte (process_loop 4096 4096 2 0
         (store_byte (process_loop 4096 4096 2 0 AB_state) 4098 0)) 4098 0)"
  using lib_process_data_valid [OF string_at_BB, of 4096 3]
  by simp

subsection \<open>The host\<close>

text \<open>Storing a NUL byte leaves a C string where there was one.\<close>

lemma string_at_after_zero:
  "string_at m p s \<Longrightarrow> \<exists>s'. string_at (m(a := 0)) p s'"
proof (induction s arbitrary: p)
  case Nil
  then have "string_at (m(a := 0)) p []" by simp
  then show ?case ..
next
  case (Cons c cs)
  show ?case
  proof (cases "a = p")
    case True
    then have "string_at (m(a := 0)) p []" by simp
    then show ?thesis ..
  next
    case False
    from Cons.prems have "string_at m (p + 1) cs" by simp
    from Cons.IH [OF this] obtain s' where "string_at (m(a := 0)) (p + 1) s'" ..
    with Cons.prems False have "string_at (m(a := 0)) p (c # s')" by simp
    then show ?thesis ..
  qed
qed

lemma string_at_after_module_load:
  assumes "string_at (mem st) p s"
  shows "\<exists>s'. string_at (mem (store_int st a 0)) p s'"
proof -
  from string_at_after_zero [OF assms, of a] obtain s1
    where "string_at ((mem st)(a := 0)) p s1" ..
  from string_at_after_zero [OF this, of "a + 1"] obtain s2
    where "string_at ((mem st)(a := 0, a + 1 := 0)) p s2" ..
  from string_at_after_zero [OF this, of "a + 2"] obtain s3
    where "string_at ((mem st)(a := 0, a + 1 := 0, a + 2 := 0)) p s3" ..
  from string_at_after_zero [OF this, of "a + 3"] obtain s4
    where "string_at ((mem st)(a := 0, a + 1 := 0, a + 2 := 0, a + 3 := 0)) p s4" ..
  then have "string_at (mem (store_int st a 0)) p s4"
    by (simp add: mem_store_int)
  then show ?thesis ..
qed

lemma main_load_failure:
  assumes "modules env ''./libshared14.so'' = None"
  shows "main env st =
     Some (1, st\<lparr>trace := trace st @
       [Dlopen ''./libshared14.so'', Dlerror,
        Fprintf_stderr ''Failed to load library: %s\<newline>'' [Arg_str (dlerror_text env)]]\<rparr>)"
  using assms by (simp add: main_def dlopen_def emit_def)

lemma main_missing_symbol:
  assumes "modules env ''./libshared14.so'' = Some exports"
    and "\<not> set required_exports \<subseteq> set exports"
  shows "\<exists>st'. main env st = Some (1, st') \<and> trace st' = trace st @
       [Dlopen ''./libshared14.so'',
        Printf ''[Library] Loaded at %p\<newline>'' [Arg_sym ''lib_constructor''],
        Printf ''[Main] Library loaded successfully\<newline>'' [],
        Dlsym ''lib_initialize'', Dlsym ''lib_process_data'', Dlsym ''lib_execute_callback'',
        Dlsym ''lib_increment_counter'', Dlsym ''lib_global_counter'',
        Fprintf_stderr ''Failed to find symbols\<newline>'' [],
        Dlclose,
        Printf ''[Library] Unloading\<newline>'' []]"
proof -
  from assms(2) have "''lib_initialize'' \<notin> set exports \<or> ''lib_process_data'' \<notin> set exports
      \<or> ''lib_execute_callback'' \<notin> set exports \<or> ''lib_increment_counter'' \<notin> set exports
      \<or> ''lib_global_counter'' \<notin> set exports"
    by (simp add: required_exports_def)
  with assms(1) show ?thesis
    by (simp add: main_def dlopen_def dlsym_def dlclose_def module_load_def lib_constructor_def
        lib_destructor_def emit_def store_int_fields)
qed

lemma use_library_trace:
  assumes "literal_addr env = 0 \<or> buffer_addr env = 0
           \<or> string_at (mem st) (literal_addr env) s"
  shows "\<exists>st' tr. use_library env st = Some (0, st') \<and> trace st' = trace st @ tr
     \<and> calls tr = [Call ''lib_initialize'', Call ''lib_process_data'',
                    Call ''lib_execute_callback'', Call ''lib_increment_counter'', Dlclose]
     \<and> stderr_text tr = []"
proof -
  let ?st1 = "emit (Call ''lib_process_data'')
     (emit (Printf ''[Main] lib_initialize returned: %d\<newline>'' [Arg_int 0])
       (snd (lib_initialize (emit (Call ''lib_initialize'')
         (emit (Printf ''\<newline>=== Testing Library Functions ===\<newline>'' []) st)))))"
  have m: "mem ?st1 = mem st"
    by (simp add: emit_def lib_initialize_def)
  from assms have "literal_addr env = 0 \<or> buffer_addr env = 0 \<or> (256 :: addr) = 0
           \<or> string_at (mem ?st1) (literal_addr env) s"
    by (simp only: m) simp
  from lib_process_data_returns [OF this]
  obtain r st2 where call: "lib_process_data (literal_addr env) (buffer_addr env) 256 ?st1
      = Some (r, st2)"
    by blast
  note t = lib_process_data_trace [OF call]
  from call t show ?thesis
    by (simp add: use_library_def Let_def split_def lib_initialize_def lib_execute_callback_def
        my_callback_def internal_calculate_def emit_def lib_increment_counter_def
        dlclose_def lib_destructor_def store_int_fields calls_def)
qed

lemma main_all_resolved:
  assumes "modules env ''./libshared14.so'' = Some exports"
    and "set required_exports \<subseteq> set exports"
  shows "\<exists>st0. main env st = use_library env st0
     \<and> mem st0 = mem (store_int st (lib_global_counter_addr st) 0)
     \<and> trace st0 = trace st @
       [Dlopen ''./libshared14.so'',
        Printf ''[Library] Loaded at %p\<newline>'' [Arg_sym ''lib_constructor''],
        Printf ''[Main] Library loaded successfully\<newline>'' [],
        Dlsym ''lib_initialize'', Dlsym ''lib_process_data'', Dlsym ''lib_execute_callback'',
        Dlsym ''lib_increment_counter'', Dlsym ''lib_global_counter'']"
proof -
  let ?st0 = "emit (Dlsym ''lib_global_counter'') (emit (Dlsym ''lib_increment_counter'')
     (emit (Dlsym ''lib_execute_callback'') (emit (Dlsym ''lib_process_data'')
     (emit (Dlsym ''lib_initialize'')
     (emit (Printf ''[Main] Library loaded successfully\<newline>'' [])
     (module_load (emit (Dlopen ''./libshared14.so'') st)))))))"
  from assms(2) have "''lib_initialize'' \<in> set exports" "''lib_process_data'' \<in> set exports"
      "''lib_execute_callback'' \<in> set exports" "''lib_increment_counter'' \<in> set exports"
      "''lib_global_counter'' \<in> set exports"
    by (simp_all add: required_exports_def)
  with assms(1) have "main env st = use_library env ?st0"
    by (simp add: main_def dlopen_def dlsym_def)
  moreover have "mem ?st0 = mem (store_int st (lib_global_counter_addr st) 0)"
    by (simp add: emit_def module_load_def lib_constructor_def mem_store_int)
  moreover have "trace ?st0 = trace st @
       [Dlopen ''./libshared14.so'',
        Printf ''[Library] Loaded at %p\<newline>'' [Arg_sym ''lib_constructor''],
        Printf ''[Main] Library loaded successfully\<newline>'' [],
        Dlsym ''lib_initialize'', Dlsym ''lib_process_data'', Dlsym ''lib_execute_callback'',
        Dlsym ''lib_increment_counter'', Dlsym ''lib_global_counter'']"
    by (simp add: emit_def module_load_def lib_constructor_def store_int_fields)
  ultimately show ?thesis by blast
qed

lemma main_success:
  assumes "modules env ''./libshared14.so'' = Some exports"
    and "set required_exports \<subseteq> set exports"
    and "literal_addr env = 0 \<or> buffer_addr env = 0
           \<or> string_at (mem st) (literal_addr env) s"
  shows "\<exists>st' tr. main env st = Some (0, st') \<and> trace st' = trace st @ tr
     \<and> calls tr =
          [Dlopen ''./libshared14.so'',
           Dlsym ''lib_initialize'', Dlsym ''lib_process_data'', Dlsym ''lib_execute_callback'',
           Dlsym ''lib_increment_counter'', Dlsym ''lib_global_counter'',
           Call ''lib_initialize'', Call ''lib_process_data'',
           Call ''lib_execute_callback'', Call ''lib_increment_counter'', Dlclose]
     \<and> stderr_text tr = []"
proof -
  let ?pre = "[Dlopen ''./libshared14.so'',
        Printf ''[Library] Loaded at %p\<newline>'' [Arg_sym ''lib_constructor''],
        Printf ''[Main] Library loaded successfully\<newline>'' [],
        Dlsym ''lib_initialize'', Dlsym ''lib_process_data'', Dlsym ''lib_execute_callback'',
        Dlsym ''lib_increment_counter'', Dlsym ''lib_global_counter'']"
  from main_all_resolved [OF assms(1,2), of st]
  obtain st0 where m: "main env st = use_library env st0"
    and mem0: "mem st0 = mem (store_int st (lib_global_counter_addr st) 0)"
    and tr0: "trace st0 = trace st @ ?pre"
    by blast
  have "literal_addr env = 0 \<or> buffer_addr env = 0
           \<or> (\<exists>s'. string_at (mem st0) (literal_addr env) s')"
    using assms(3) string_at_after_module_load [of st "literal_addr env" s]
    by (auto simp: mem0)
  then obtain s' where "literal_addr env = 0 \<or> buffer_addr env = 0
           \<or> string_at (mem st0) (literal_addr env) s'"
    by blast
  from use_library_trace [OF this]
  obtain st' tr where u: "use_library env st0 = Some (0, st')"
    and t: "trace st' = trace st0 @ tr"
    and c: "calls tr = [Call ''lib_initialize'', Call ''lib_process_data'',
                    Call ''lib_execute_callback'', Call ''lib_increment_counter'', Dlclose]"
    and e: "stderr_text tr = []"
    by blast
  show ?thesis
  proof (intro exI conjI)
    show "main env st = Some (0, st')"
      using u m by simp
    show "trace st' = trace st @ (?pre @ tr)"
      using t tr0 by simp
    show "calls (?pre @ tr) = [Dlopen ''./libshared14.so'',
           Dlsym ''lib_initialize'', Dlsym ''lib_process_data'', Dlsym ''lib_execute_callback'',
           Dlsym ''lib_increment_counter'', Dlsym ''lib_global_counter'',
           Call ''lib_initialize'', Call ''lib_process_data'',
           Call ''lib_execute_callback'', Call ''lib_increment_counter'', Dlclose]"
      using c by (simp add: calls_def)
    show "stderr_text (?pre @ tr) = []"
      using e by simp
  qed
qed

lemma modules_env_exporting:
  "modules (env_exporting names) ''./libshared14.so'' = Some names"
  by (simp add: env_exporting_def)

lemma modules_env_missing:
  "modules (env_missing name) ''./libshared14.so'' = Some (removeAll name required_exports)"
  by (simp add: env_missing_def modules_env_exporting)

lemma missing_not_all:
  "name \<in> set required_exports \<Longrightarrow>
   \<not> set required_exports \<subseteq> set (removeAll name required_exports)"
  by auto

lemma literal_env_exporting: "literal_addr (env_exporting names) = 4096"
  by (simp add: env_exporting_def)

subsection \<open>Failing calls and the \<open>int\<close> returned\<close>

lemma lib_process_data_fails_unchanged:
  assumes "input = 0 \<or> out = 0 \<or> output_size = 0
           \<or> string_at (mem st) input s \<and> unat output_size \<le> length s"
  shows "\<exists>r. lib_process_data input out output_size st = Some (r, st)"
proof (cases "input = 0 \<or> out = 0 \<or> output_size = 0")
  case True
  then show ?thesis by (simp add: lib_process_data_def)
next
  case False
  with assms have s: "string_at (mem st) input s" and l: "unat output_size \<le> length s"
    by simp_all
  from False have "input \<noteq> 0" "out \<noteq> 0" "output_size \<noteq> 0" by simp_all
  from lib_process_data_too_small [OF s this l] show ?thesis by simp
qed

lemma error_code_means_failure:
  assumes s: "string_at (mem st) input s" and b: "length s < 2 ^ 31"
    and call: "lib_process_data input out output_size st = Some (r, st')"
    and code: "c_return r = - 1 \<or> c_return r = - 2"
  shows "st' = st"
  using call
proof (cases rule: lib_process_data_cases)
  case (written len)
  from written strlen_string_at [OF s] have "len = of_nat (length s)" by simp
  with written string_at_length [OF s] have "c_return r = of_nat (length s)"
    by (simp add: ucast_length)
  with code length_not_error_code [OF b] show ?thesis by simp
qed simp_all

subsection \<open>The counter and the bytes of a call\<close>

lemma counter_addr_with_string:
  "lib_global_counter_addr (with_string p s st) = lib_global_counter_addr st"
  by (simp add: with_string_def)

lemma counter_addr_initial: "lib_global_counter_addr initial_state = 1024"
  by (simp add: initial_state_def)

lemma lib_process_data_keeps_counter:
  assumes "string_at (mem st) input s" "input \<noteq> 0" "out \<noteq> 0" "length s < unat output_size"
    and "disjoint_ranges out (length s + 1) (lib_global_counter_addr st) 4"
  shows "\<exists>r st'. lib_process_data input out output_size st = Some (r, st')
           \<and> lib_global_counter st' = lib_global_counter st"
  using lib_process_data_valid [OF assms(1-4)]
    written_counter [OF string_at_length [OF assms(1)] assms(5)]
  by simp

lemma with_counter_elsewhere:
  assumes "disjoint_ranges p m (lib_global_counter_addr st) 4" "k < m"
  shows "mem (with_counter v st) (p + of_nat k) = mem st (p + of_nat k)"
proof -
  let ?c = "lib_global_counter_addr st"
  from disjoint_ranges_neq [OF assms, of 0] disjoint_ranges_neq [OF assms, of 1]
    disjoint_ranges_neq [OF assms, of 2] disjoint_ranges_neq [OF assms, of 3]
  have "p + of_nat k \<noteq> ?c" "p + of_nat k \<noteq> ?c + 1" "p + of_nat k \<noteq> ?c + 2"
    "p + of_nat k \<noteq> ?c + 3"
    by simp_all
  then show ?thesis
    by (simp add: with_counter_def mem_store_int)
qed

subsection \<open>Further scenarios\<close>

lemma length_letters: "length (letters n) = n"
  by (simp add: letters_def)

lemma string_at_letters:
  assumes "n < 2 ^ 64"
  shows "string_at (mem (letters_state n)) 4096 (letters n)"
proof -
  have "0 \<notin> set (letters n)"
    by (simp add: letters_def)
  with assms show ?thesis
    unfolding letters_state_def by (intro string_at_with_string) (simp_all add: length_letters)
qed

lemma letters_call:
  assumes "n < unat output_size"
  shows "lib_process_data 4096 8589934592 output_size (letters_state n) =
     Some (Inr (of_nat n),
           store_byte (process_loop 4096 8589934592 (of_nat n) 0 (letters_state n))
             (8589934592 + of_nat n) 0)"
proof -
  have "unat output_size < 2 ^ 64"
    using unsigned_less [of output_size, where ?'a = nat] by simp
  with assms have "n < 2 ^ 64" by simp
  from lib_process_data_valid [OF string_at_letters [OF this], of 8589934592 output_size] assms
  show ?thesis by (simp add: length_letters)
qed

lemma letters_call_int:
  assumes "n < unat output_size"
  shows "returned_int (lib_process_data 4096 8589934592 output_size (letters_state n))
         = Some (sint (of_nat n :: cint))"
  by (simp add: letters_call [OF assms] returned_int_def)

lemma letters_first_output:
  assumes "0 < n" "n < unat output_size" "separated 4096 8589934592 (of_nat n)"
  shows "bytes_after (lib_process_data 4096 8589934592 output_size (letters_state n))
           8589934592 1 = Some [65]"
proof -
  have "unat output_size < 2 ^ 64"
    using unsigned_less [of output_size, where ?'a = nat] by simp
  with assms(2) have n: "n < 2 ^ 64" by simp
  let ?st' = "store_byte (process_loop 4096 8589934592 (of_nat n) 0 (letters_state n))
             (8589934592 + of_nat n) 0"
  have sep: "separated 4096 8589934592 (of_nat (length (letters n)))"
    using assms(3) by (simp add: length_letters)
  from written_string [OF string_at_letters [OF n] sep]
  have w: "string_at (mem ?st') 8589934592 (reverse_upper (letters n))"
    by (simp add: length_letters)
  have len: "0 < length (reverse_upper (letters n))"
    using assms(1) by (simp add: length_reverse_upper length_letters)
  have "reverse_upper (letters n) ! 0 = to_upper 65"
    using assms(1) by (simp add: reverse_upper_def letters_def)
  also have "\<dots> = 65"
    by (simp add: to_upper_unsigned)
  finally have first: "reverse_upper (letters n) ! 0 = 65" .
  from string_at_append_nth [OF w len] first have "mem ?st' 8589934592 = 65"
    by simp
  then show ?thesis
    by (simp add: letters_call [OF assms(2)] bytes_after_def load_bytes_def)
qed

lemma letters_state_elsewhere:
  assumes "n < 4294967296"
  shows "mem (letters_state n) 8589934592 = 0"
proof -
  have "\<forall>k<length (letters n @ [0]). (8589934592 :: addr) \<noteq> 4096 + of_nat k"
  proof (intro allI impI)
    fix k assume "k < length (letters n @ [0])"
    with assms have k: "k < 4294967297" by (simp add: length_letters)
    then have "unat (of_nat k :: addr) = k" by (simp add: unat_of_nat_addr)
    with k have "unat (4096 + of_nat k :: addr) = 4096 + k"
      by (simp add: unat_word_ariths)
    with k have "unat (4096 + of_nat k :: addr) \<noteq> unat (8589934592 :: addr)" by simp
    then show "(8589934592 :: addr) \<noteq> 4096 + of_nat k" by auto
  qed
  then have "store_bytes zero_memory 4096 (letters n @ [0]) 8589934592 = zero_memory 8589934592"
    by (rule store_bytes_other)
  then show ?thesis
    by (simp add: letters_state_def with_string_def initial_state_def zero_memory_def)
qed

lemma counter_hello: "lib_global_counter hello_state = 0"
  by (simp add: lib_global_counter_def hello_state_def with_string_def initial_state_def
      hello_def bytes_of_def load_int_def zero_memory_def)

lemma disjoint_hello: "disjoint_ranges 8192 22 (lib_global_counter_addr hello_state) 4"
  by (simp add: disjoint_ranges_def hello_state_def counter_addr_with_string counter_addr_initial)

lemma disjoint_hello_input: "disjoint_ranges 4096 22 (lib_global_counter_addr hello_state) 4"
  by (simp add: disjoint_ranges_def hello_state_def counter_addr_with_string counter_addr_initial)

lemma string_at_abc: "string_at (mem abc_state) 4096 (bytes_of ''abc'')"
  by (simp add: abc_state_def with_string_def initial_state_def bytes_of_def)

lemma abc_onto_counter:
  "lib_process_data 4096 1024 4 abc_state =
     Some (Inr 3, store_byte (process_loop 4096 1024 3 0 abc_state) 1027 0)"
  using lib_process_data_valid [OF string_at_abc, of 1024 4]
  by (simp add: bytes_of_def)

lemma ab_onto_counter:
  "lib_process_data 4096 1024 3 ab_state =
     Some (Inr 2, store_byte (process_loop 4096 1024 2 0 ab_state) 1026 0)"
  using lib_process_data_valid [OF string_at_ab, of 1024 3]
  by (simp add: bytes_of_def)

lemma string_at_counter_0: "string_at (mem (with_counter 0 initial_state)) 1024 []"
  by (simp add: with_counter_def mem_store_int initial_state_def)

lemma string_at_counter_65: "string_at (mem (with_counter 65 initial_state)) 1024 [65]"
  by (simp add: with_counter_def mem_store_int initial_state_def)

section \<open>The claims\<close>

text \<open>
  C1 (as amended). Let \<open>s\<close> be the C string at a non-null input pointer (any bytes other than
  NUL, printable ASCII among them), shorter than \<open>output_size\<close>, with a non-null output
  pointer. When moreover the \<open>len + 1\<close> bytes at the output pointer and the \<open>len + 1\<close> bytes
  of the input string have no address in common, and \<open>len < 2^31\<close>, \<open>lib_process_data\<close>
  returns \<open>len\<close> and leaves at the output pointer the C string that is the reverse of \<open>s\<close>
  with each ASCII lowercase letter replaced by its uppercase letter. For the string
  \<open>Hello Dynamic Library\<close> and capacity 256 it returns 21 and the output is
  \<open>YRARBIL CIMANYD OLLEH\<close>.
\<close>

theorem lib_process_data_reverse_upper:
  assumes "string_at (mem st) input s" "input \<noteq> 0" "out \<noteq> 0"
    and "length s < unat output_size"
    and "separated input out (of_nat (length s))"
    and "length s < 2 ^ 31"
  shows "\<exists>r st'. lib_process_data input out output_size st = Some (Inr r, st')
     \<and> sint r = int (length s)
     \<and> string_at (mem st') out (reverse_upper s)
     \<and> (s = hello \<and> output_size = 256 \<longrightarrow>
          r = 21 \<and> string_at (mem st') out (bytes_of ''YRARBIL CIMANYD OLLEH''))"
proof (intro exI conjI impI)
  let ?st' = "store_byte (process_loop input out (of_nat (length s)) 0 st)
                (out + of_nat (length s)) 0"
  show "lib_process_data input out output_size st = Some (Inr (of_nat (length s)), ?st')"
    using assms(1-4) by (rule lib_process_data_valid)
  show "sint (of_nat (length s) :: cint) = int (length s)"
    using assms(6) by (rule sint_small)
  show w: "string_at (mem ?st') out (reverse_upper s)"
    using assms(1,5) by (rule written_string)
  show "(of_nat (length s) :: cint) = 21" if "s = hello \<and> output_size = 256"
    using that by (simp add: length_hello)
  show "string_at (mem ?st') out (bytes_of ''YRARBIL CIMANYD OLLEH'')"
    if "s = hello \<and> output_size = 256"
    using that w by (simp add: reverse_upper_hello)
qed

theorem lib_process_data_reverse_upper_witness:
  "string_at (mem hello_state) 4096 hello
   \<and> separated 4096 8192 (of_nat (length hello))
   \<and> length hello < unat (256 :: addr)
   \<and> (\<exists>st'. lib_process_data 4096 8192 256 hello_state = Some (Inr 21, st')
          \<and> string_at (mem st') 8192 (bytes_of ''YRARBIL CIMANYD OLLEH''))"
proof -
  have sep: "separated 4096 8192 (of_nat (length hello))"
    by (simp add: length_hello separated_hello)
  have len: "length hello < unat (256 :: addr)" "length hello < 2 ^ 31"
    by (simp_all add: length_hello)
  from lib_process_data_reverse_upper [OF string_at_hello _ _ len(1) sep len(2)]
    string_at_hello sep len
  show ?thesis by auto
qed

text \<open>
  Without the two added conditions the claim fails. With the output pointer equal to the input
  pointer and the string \<open>ab\<close>, the call succeeds and leaves \<open>BB\<close>, not \<open>BA\<close>: the second
  byte read is one the loop has already written. With a string of \<open>2^31\<close> letters and
  capacity \<open>2^32\<close>, in buffers far apart, the \<open>int\<close> returned is \<open>-2147483648\<close>, not the length.
\<close>

theorem lib_process_data_reverse_upper_counterexample:
  "printable_ascii (bytes_of ''ab'')
   \<and> string_at (mem ab_state) 4096 (bytes_of ''ab'')
   \<and> length (bytes_of ''ab'') < unat (3 :: addr)
   \<and> returned (lib_process_data 4096 4096 3 ab_state) = Some (Inr 2)
   \<and> bytes_after (lib_process_data 4096 4096 3 ab_state) 4096 3 = Some [66, 66, 0]
   \<and> reverse_upper (bytes_of ''ab'') @ [0] = [66, 65, 0]
   \<and> printable_ascii long_string
   \<and> string_at (mem long_state) 4096 long_string
   \<and> separated 4096 8589934592 (of_nat (length long_string))
   \<and> length long_string = 2147483648
   \<and> length long_string < unat (4294967296 :: addr)
   \<and> returned_int (lib_process_data 4096 8589934592 4294967296 long_state)
       = Some (- 2147483648)"
proof (intro conjI)
  show "printable_ascii (bytes_of ''ab'')" by (rule printable_ab)
  show "string_at (mem ab_state) 4096 (bytes_of ''ab'')" by (rule string_at_ab)
  show "length (bytes_of ''ab'') < unat (3 :: addr)" by (simp add: bytes_of_def)
  show "returned (lib_process_data 4096 4096 3 ab_state) = Some (Inr 2)"
    by (simp add: ab_in_place returned_def)
  show "bytes_after (lib_process_data 4096 4096 3 ab_state) 4096 3 = Some [66, 66, 0]"
    by (rule ab_in_place_bytes)
  show "reverse_upper (bytes_of ''ab'') @ [0] = [66, 65, 0]"
    by (simp add: reverse_upper_ab)
  show "printable_ascii long_string" by (rule printable_long)
  show "string_at (mem long_state) 4096 long_string" by (rule string_at_long)
  show "separated 4096 8589934592 (of_nat (length long_string))"
    by (simp only: length_long_string) (simp add: separated_def)
  show "length long_string = 2147483648"
    by (simp only: length_long_string) simp
  show "length long_string < unat (4294967296 :: addr)"
    by (simp only: length_long_string) simp
  have "length long_string < unat (4294967296 :: addr)"
    by (simp only: length_long_string) simp
  from lib_process_data_valid [OF string_at_long _ _ this, of 8589934592]
  show "returned_int (lib_process_data 4096 8589934592 4294967296 long_state)
       = Some (- 2147483648)"
    by (simp add: returned_int_def length_long_string)
qed

text \<open>
  C2 (as amended). When the module loads, the host resolves the five required exports,
  \<open>lib_initialize\<close>, \<open>lib_process_data\<close>, \<open>lib_execute_callback\<close>,
  \<open>lib_increment_counter\<close> and \<open>lib_global_counter\<close>, before it calls any of them. If one
  of them is missing, the host writes the fixed text \<open>Failed to find symbols\<close> to \<open>stderr\<close>,
  releases the module exactly once and returns 1, and it calls no exported operation; the
  text does not say which export is missing.
\<close>

theorem main_resolves_before_use:
  assumes "modules env ''./libshared14.so'' = Some exports"
  shows "(\<not> set required_exports \<subseteq> set exports \<longrightarrow>
        returned (main env st) = Some 1
        \<and> trace_after (main env st) = Some (trace st @
           [Dlopen ''./libshared14.so'',
            Printf ''[Library] Loaded at %p\<newline>'' [Arg_sym ''lib_constructor''],
            Printf ''[Main] Library loaded successfully\<newline>'' [],
            Dlsym ''lib_initialize'', Dlsym ''lib_process_data'', Dlsym ''lib_execute_callback'',
            Dlsym ''lib_increment_counter'', Dlsym ''lib_global_counter'',
            Fprintf_stderr ''Failed to find symbols\<newline>'' [],
            Dlclose,
            Printf ''[Library] Unloading\<newline>'' []]))
     \<and> (set required_exports \<subseteq> set exports
          \<and> string_at (mem st) (literal_addr env) hello \<longrightarrow>
        (\<exists>tr. trace_after (main env st) = Some (trace st @ tr)
           \<and> calls tr =
              [Dlopen ''./libshared14.so'',
               Dlsym ''lib_initialize'', Dlsym ''lib_process_data'',
               Dlsym ''lib_execute_callback'', Dlsym ''lib_increment_counter'',
               Dlsym ''lib_global_counter'',
               Call ''lib_initialize'', Call ''lib_process_data'',
               Call ''lib_execute_callback'', Call ''lib_increment_counter'', Dlclose]))"
proof (intro conjI impI)
  assume m: "\<not> set required_exports \<subseteq> set exports"
  from main_missing_symbol [OF assms m, of st] obtain st'
    where f: "main env st = Some (1, st')"
      and t: "trace st' = trace st @
           [Dlopen ''./libshared14.so'',
            Printf ''[Library] Loaded at %p\<newline>'' [Arg_sym ''lib_constructor''],
            Printf ''[Main] Library loaded successfully\<newline>'' [],
            Dlsym ''lib_initialize'', Dlsym ''lib_process_data'', Dlsym ''lib_execute_callback'',
            Dlsym ''lib_increment_counter'', Dlsym ''lib_global_counter'',
            Fprintf_stderr ''Failed to find symbols\<newline>'' [],
            Dlclose,
            Printf ''[Library] Unloading\<newline>'' []]"
    by blast
  show "returned (main env st) = Some 1"
    by (simp add: f returned_def)
  show "trace_after (main env st) = Some (trace st @
           [Dlopen ''./libshared14.so'',
            Printf ''[Library] Loaded at %p\<newline>'' [Arg_sym ''lib_constructor''],
            Printf ''[Main] Library loaded successfully\<newline>'' [],
            Dlsym ''lib_initialize'', Dlsym ''lib_process_data'', Dlsym ''lib_execute_callback'',
            Dlsym ''lib_increment_counter'', Dlsym ''lib_global_counter'',
            Fprintf_stderr ''Failed to find symbols\<newline>'' [],
            Dlclose,
            Printf ''[Library] Unloading\<newline>'' []])"
    by (simp add: f t trace_after_def)
next
  assume "set required_exports \<subseteq> set exports
          \<and> string_at (mem st) (literal_addr env) hello"
  then have a: "set required_exports \<subseteq> set exports"
    "literal_addr env = 0 \<or> buffer_addr env = 0
           \<or> string_at (mem st) (literal_addr env) hello" by simp_all
  from main_success [OF assms a]
  show "\<exists>tr. trace_after (main env st) = Some (trace st @ tr)
           \<and> calls tr =
              [Dlopen ''./libshared14.so'',
               Dlsym ''lib_initialize'', Dlsym ''lib_process_data'',
               Dlsym ''lib_execute_callback'', Dlsym ''lib_increment_counter'',
               Dlsym ''lib_global_counter'',
               Call ''lib_initialize'', Call ''lib_process_data'',
               Call ''lib_execute_callback'', Call ''lib_increment_counter'', Dlclose]"
    by (auto simp: trace_after_def)
qed

theorem main_resolves_before_use_witness:
  "modules (env_missing ''lib_increment_counter'') ''./libshared14.so''
     = Some (removeAll ''lib_increment_counter'' required_exports)
   \<and> \<not> set required_exports \<subseteq> set (removeAll ''lib_increment_counter'' required_exports)
   \<and> returned (main (env_missing ''lib_increment_counter'') initial_state) = Some 1
   \<and> trace_after (main (env_missing ''lib_increment_counter'') initial_state) = Some
        [Dlopen ''./libshared14.so'',
         Printf ''[Library] Loaded at %p\<newline>'' [Arg_sym ''lib_constructor''],
         Printf ''[Main] Library loaded successfully\<newline>'' [],
         Dlsym ''lib_initialize'', Dlsym ''lib_process_data'', Dlsym ''lib_execute_callback'',
         Dlsym ''lib_increment_counter'', Dlsym ''lib_global_counter'',
         Fprintf_stderr ''Failed to find symbols\<newline>'' [],
         Dlclose,
         Printf ''[Library] Unloading\<newline>'' []]
   \<and> modules (env_exporting required_exports) ''./libshared14.so'' = Some required_exports
   \<and> string_at (mem hello_state) (literal_addr (env_exporting required_exports)) hello
   \<and> (\<exists>tr. trace_after (main (env_exporting required_exports) hello_state) = Some tr
         \<and> calls tr =
              [Dlopen ''./libshared14.so'',
               Dlsym ''lib_initialize'', Dlsym ''lib_process_data'',
               Dlsym ''lib_execute_callback'', Dlsym ''lib_increment_counter'',
               Dlsym ''lib_global_counter'',
               Call ''lib_initialize'', Call ''lib_process_data'',
               Call ''lib_execute_callback'', Call ''lib_increment_counter'', Dlclose])"
proof -
  have miss: "\<not> set required_exports \<subseteq> set (removeAll ''lib_increment_counter'' required_exports)"
    by (rule missing_not_all) (simp add: required_exports_def)
  have lit: "string_at (mem hello_state) (literal_addr (env_exporting required_exports)) hello"
    by (simp add: literal_env_exporting string_at_hello)
  have empty: "trace initial_state = []" "trace hello_state = []"
    by (simp_all add: initial_state_def hello_state_def with_string_def)
  from main_resolves_before_use [OF modules_env_missing, of "''lib_increment_counter''" initial_state]
    main_resolves_before_use [OF modules_env_exporting, of required_exports hello_state]
    miss lit
  show ?thesis
    by (simp add: modules_env_missing modules_env_exporting empty)
qed

text \<open>
  The diagnostic does not name the missing export: without \<open>lib_initialize\<close> all that goes
  to \<open>stderr\<close> is \<open>Failed to find symbols\<close>, in which \<open>lib_initialize\<close> does not occur, and
  without \<open>lib_global_counter\<close> it is the same text.
\<close>

theorem main_resolves_before_use_counterexample:
  "modules (env_missing ''lib_initialize'') ''./libshared14.so''
     = Some [''lib_process_data'', ''lib_execute_callback'', ''lib_increment_counter'',
             ''lib_global_counter'']
   \<and> returned (main (env_missing ''lib_initialize'') initial_state) = Some 1
   \<and> stderr_after (main (env_missing ''lib_initialize'') initial_state)
       = Some [''Failed to find symbols\<newline>'']
   \<and> \<not> sublist ''lib_initialize'' ''Failed to find symbols\<newline>''
   \<and> stderr_after (main (env_missing ''lib_global_counter'') initial_state)
       = Some [''Failed to find symbols\<newline>'']"
proof (intro conjI)
  show "modules (env_missing ''lib_initialize'') ''./libshared14.so''
     = Some [''lib_process_data'', ''lib_execute_callback'', ''lib_increment_counter'',
             ''lib_global_counter'']"
    by (simp add: modules_env_missing required_exports_def)
  have m1: "\<not> set required_exports \<subseteq> set (removeAll ''lib_initialize'' required_exports)"
    by (rule missing_not_all) (simp add: required_exports_def)
  have m2: "\<not> set required_exports \<subseteq> set (removeAll ''lib_global_counter'' required_exports)"
    by (rule missing_not_all) (simp add: required_exports_def)
  have empty: "trace initial_state = []"
    by (simp add: initial_state_def)
  from main_missing_symbol [OF modules_env_missing m1, of initial_state] obtain st1
    where f1: "main (env_missing ''lib_initialize'') initial_state = Some (1, st1)"
      and t1: "stderr_text (trace st1) = [''Failed to find symbols\<newline>'']"
    by (auto simp: empty)
  from main_missing_symbol [OF modules_env_missing m2, of initial_state] obtain st2
    where f2: "main (env_missing ''lib_global_counter'') initial_state = Some (1, st2)"
      and t2: "stderr_text (trace st2) = [''Failed to find symbols\<newline>'']"
    by (auto simp: empty)
  show "returned (main (env_missing ''lib_initialize'') initial_state) = Some 1"
    by (simp add: f1 returned_def)
  show "stderr_after (main (env_missing ''lib_initialize'') initial_state)
       = Some [''Failed to find symbols\<newline>'']"
    by (simp add: f1 t1 stderr_after_def)
  show "\<not> sublist ''lib_initialize'' ''Failed to find symbols\<newline>''"
    by (simp add: sublist_code prefix_code)
  show "stderr_after (main (env_missing ''lib_global_counter'') initial_state)
       = Some [''Failed to find symbols\<newline>'']"
    by (simp add: f2 t2 stderr_after_def)
qed

text \<open>
  C3. For every \<open>int\<close> \<open>v\<close> and every callback \<open>cb\<close>, \<open>lib_execute_callback\<close> computes
  \<open>v * 10 + (v + 10) = v * 11 + 10\<close> in 32-bit arithmetic, and the call is one call of \<open>cb\<close>
  on that value: it returns what \<open>cb\<close> returns and has the effects \<open>cb\<close> has. For a pure
  callback \<open>g\<close> the value returned is \<open>g (v * 11 + 10)\<close>, and with the doubling callback of
  the host and \<open>v = 7\<close> it is 174.
\<close>

theorem lib_execute_callback_applies_callback:
  "lib_execute_callback (Some cb) v st = cb (v * 11 + 10) st
   \<and> internal_calculate v 10 = v * 10 + (v + 10)
   \<and> fst (lib_execute_callback (Some (\<lambda>x s. (g x, s))) v st) = g (v * 11 + 10)
   \<and> fst (lib_execute_callback (Some my_callback) 7 st) = 174"
  by (simp add: lib_execute_callback_def internal_calculate_10 my_callback_def)

text \<open>
  C4 (as amended). For a call whose input pointer is null or points to a C string \<open>s\<close> shorter
  than \<open>2^31\<close> bytes: \<open>lib_process_data\<close> returns, and the \<open>int\<close> it returns is \<open>-1\<close> exactly
  when the input pointer is null, the output pointer is null or \<open>output_size\<close> is zero;
  otherwise it is \<open>-2\<close> exactly when \<open>output_size \<le> length s\<close>; and it is not negative exactly
  in the remaining cases, where it is the length of \<open>s\<close>.

  Without the bound on the length the \<open>int\<close> does not tell the three cases apart, since the
  function returns \<open>(int)len\<close>: with valid pointers and capacity \<open>2^32\<close>, the call on a string
  of \<open>2^32 - 1\<close> bytes passes both checks and returns \<open>-1\<close>, and the call on a string of
  \<open>2^32 - 2\<close> bytes returns \<open>-2\<close>.
\<close>

theorem lib_process_data_error_conditions:
  assumes "input = 0 \<or> out = 0 \<or> output_size = 0
           \<or> string_at (mem st) input s \<and> length s < 2 ^ 31"
  shows "\<exists>r st'. lib_process_data input out output_size st = Some (r, st')
     \<and> (c_return r = - 1 \<longleftrightarrow> input = 0 \<or> out = 0 \<or> output_size = 0)
     \<and> (\<not> (input = 0 \<or> out = 0 \<or> output_size = 0) \<longrightarrow>
          (c_return r = - 2 \<longleftrightarrow> unat output_size \<le> length s))
     \<and> (0 \<le> sint (c_return r) \<longleftrightarrow>
          \<not> (input = 0 \<or> out = 0 \<or> output_size = 0) \<and> length s < unat output_size)
     \<and> (\<not> (input = 0 \<or> out = 0 \<or> output_size = 0) \<and> length s < unat output_size \<longrightarrow>
          sint (c_return r) = int (length s))"
proof (cases "input = 0 \<or> out = 0 \<or> output_size = 0")
  case True
  then have "lib_process_data input out output_size st = Some (Inl InvalidArgument, st)"
    by (simp add: lib_process_data_def)
  with True show ?thesis by simp
next
  case False
  with assms have s: "string_at (mem st) input s" and b: "length s < 2 ^ 31" by simp_all
  from False have args: "input \<noteq> 0" "out \<noteq> 0" "output_size \<noteq> 0" by simp_all
  show ?thesis
  proof (cases "unat output_size \<le> length s")
    case True
    from lib_process_data_too_small [OF s args True] False True show ?thesis by simp
  next
    case small: False
    then have "length s < unat output_size" by simp
    from lib_process_data_valid [OF s args(1,2) this] False small b show ?thesis
      by (simp add: length_not_error_code sint_small)
  qed
qed

theorem lib_process_data_error_conditions_witness:
  "string_at (mem hello_state) 4096 hello
   \<and> length hello < 2 ^ 31
   \<and> returned_int (lib_process_data 4096 8192 21 hello_state) = Some (- 2)
   \<and> returned_int (lib_process_data 4096 8192 22 hello_state) = Some 21
   \<and> returned_int (lib_process_data 4096 8192 0 hello_state) = Some (- 1)
   \<and> returned_int (lib_process_data 4096 0 22 hello_state) = Some (- 1)
   \<and> returned_int (lib_process_data 0 8192 22 hello_state) = Some (- 1)"
proof -
  have h: "a = 0 \<or> b = 0 \<or> c = 0
           \<or> string_at (mem hello_state) 4096 hello \<and> length hello < 2 ^ 31" for a b c :: addr
    by (simp add: string_at_hello length_hello)
  from lib_process_data_error_conditions [OF h [of 4096 8192 21]]
    lib_process_data_error_conditions [OF h [of 4096 8192 22]]
    lib_process_data_error_conditions [OF h [of 4096 8192 0]]
    lib_process_data_error_conditions [OF h [of 4096 0 22]]
    lib_process_data_error_conditions [of 0 8192 22 hello_state hello]
    string_at_hello
  show ?thesis
    by (auto simp: returned_int_def length_hello)
qed

theorem lib_process_data_error_conditions_counterexample:
  "string_at (mem (letters_state 4294967295)) 4096 (letters 4294967295)
   \<and> length (letters 4294967295) < unat (4294967296 :: addr)
   \<and> returned_int (lib_process_data 4096 8589934592 4294967296 (letters_state 4294967295))
       = Some (- 1)
   \<and> string_at (mem (letters_state 4294967294)) 4096 (letters 4294967294)
   \<and> length (letters 4294967294) < unat (4294967296 :: addr)
   \<and> returned_int (lib_process_data 4096 8589934592 4294967296 (letters_state 4294967294))
       = Some (- 2)"
proof (intro conjI)
  show "string_at (mem (letters_state 4294967295)) 4096 (letters 4294967295)"
    by (rule string_at_letters) simp
  show "string_at (mem (letters_state 4294967294)) 4096 (letters 4294967294)"
    by (rule string_at_letters) simp
  show "length (letters 4294967295) < unat (4294967296 :: addr)"
    by (simp add: length_letters)
  show "length (letters 4294967294) < unat (4294967296 :: addr)"
    by (simp add: length_letters)
  have "4294967295 < unat (4294967296 :: addr)" by simp
  from letters_call_int [OF this]
  show "returned_int (lib_process_data 4096 8589934592 4294967296 (letters_state 4294967295))
       = Some (- 1)"
    by simp
  have "4294967294 < unat (4294967296 :: addr)" by simp
  from letters_call_int [OF this]
  show "returned_int (lib_process_data 4096 8589934592 4294967296 (letters_state 4294967294))
       = Some (- 2)"
    by simp
qed

text \<open>
  C5 (as amended). \<open>lib_global_counter\<close> is an \<open>int\<close> in the store, four bytes at its
  address. Loading the module sets it to 0, and \<open>n\<close> calls of \<open>lib_increment_counter\<close> after
  that leave it at \<open>n\<close> modulo \<open>2^32\<close>, which is \<open>n\<close> itself below \<open>2^31\<close>.
  \<open>lib_increment_counter\<close> always returns (it is a total function of the state).
  \<open>lib_initialize\<close>, the constructor and the destructor leave the counter as it is, and
  \<open>lib_execute_callback\<close> changes it exactly as the callback it is given does.
  \<open>lib_process_data\<close> leaves it as it is when the call fails, and when the call succeeds and
  the \<open>len + 1\<close> bytes written at the output pointer have no address in common with the four
  bytes of the counter.

  Without that condition \<open>lib_process_data\<close> changes the counter: with the counter at
  address 1024 holding 0, the string \<open>abc\<close> at 4096 and the output pointer 1024 with
  capacity 4, the call returns 3 and the counter is 4276803 (\<open>0x00414243\<close>) afterwards.
\<close>

theorem lib_increment_counter_counts:
  "lib_global_counter (module_load st) = 0
   \<and> lib_global_counter ((lib_increment_counter ^^ n) (module_load st)) = of_nat n
   \<and> unat (lib_global_counter ((lib_increment_counter ^^ n) (module_load st))) = n mod 2 ^ 32
   \<and> (n < 2 ^ 31 \<longrightarrow>
        sint (lib_global_counter ((lib_increment_counter ^^ n) (module_load st))) = int n)
   \<and> lib_global_counter (lib_increment_counter st) = lib_global_counter st + 1
   \<and> lib_global_counter (snd (lib_initialize st)) = lib_global_counter st
   \<and> (input = 0 \<or> out = 0 \<or> output_size = 0
        \<or> string_at (mem st) input s \<and> unat output_size \<le> length s \<longrightarrow>
       counter_after (lib_process_data input out output_size st) = Some (lib_global_counter st))
   \<and> (string_at (mem st) input s \<and> input \<noteq> 0 \<and> out \<noteq> 0 \<and> length s < unat output_size
        \<and> disjoint_ranges out (length s + 1) (lib_global_counter_addr st) 4 \<longrightarrow>
       counter_after (lib_process_data input out output_size st) = Some (lib_global_counter st))
   \<and> lib_global_counter (snd (lib_execute_callback cb v st)) =
       (case cb of None \<Rightarrow> lib_global_counter st
        | Some f \<Rightarrow> lib_global_counter (snd (f (internal_calculate v 10) st)))
   \<and> lib_global_counter (lib_constructor st) = lib_global_counter st
   \<and> lib_global_counter (lib_destructor st) = lib_global_counter st"
proof (intro conjI impI)
  show load: "lib_global_counter (module_load st) = 0"
    by (rule counter_module_load)
  show count: "lib_global_counter ((lib_increment_counter ^^ n) (module_load st)) = of_nat n"
    by (simp add: counter_increments load)
  show "unat (lib_global_counter ((lib_increment_counter ^^ n) (module_load st))) = n mod 2 ^ 32"
    by (simp add: count unat_of_nat)
  show "sint (lib_global_counter ((lib_increment_counter ^^ n) (module_load st))) = int n"
    if "n < 2 ^ 31"
    using that by (simp add: count sint_small)
  show "lib_global_counter (lib_increment_counter st) = lib_global_counter st + 1"
    by (rule counter_increment)
  show "lib_global_counter (snd (lib_initialize st)) = lib_global_counter st"
    "lib_global_counter (lib_constructor st) = lib_global_counter st"
    "lib_global_counter (lib_destructor st) = lib_global_counter st"
    by (simp_all add: lib_global_counter_def lib_initialize_def lib_constructor_def
        lib_destructor_def emit_def)
  show "counter_after (lib_process_data input out output_size st) = Some (lib_global_counter st)"
    if "input = 0 \<or> out = 0 \<or> output_size = 0
        \<or> string_at (mem st) input s \<and> unat output_size \<le> length s"
    using lib_process_data_fails_unchanged [OF that] by (auto simp: counter_after_def)
  show "counter_after (lib_process_data input out output_size st) = Some (lib_global_counter st)"
    if "string_at (mem st) input s \<and> input \<noteq> 0 \<and> out \<noteq> 0 \<and> length s < unat output_size
        \<and> disjoint_ranges out (length s + 1) (lib_global_counter_addr st) 4"
    using lib_process_data_keeps_counter [of st input s out output_size] that
    by (auto simp: counter_after_def)
  show "lib_global_counter (snd (lib_execute_callback cb v st)) =
       (case cb of None \<Rightarrow> lib_global_counter st
        | Some f \<Rightarrow> lib_global_counter (snd (f (internal_calculate v 10) st)))"
    by (simp add: lib_execute_callback_def split: option.splits)
qed

theorem lib_increment_counter_counts_witness:
  "lib_global_counter ((lib_increment_counter ^^ 3) (module_load initial_state)) = 3
   \<and> (3 :: nat) < 2 ^ 31
   \<and> sint (lib_global_counter ((lib_increment_counter ^^ 3) (module_load initial_state))) = 3
   \<and> string_at (mem hello_state) 4096 hello
   \<and> length hello < unat (256 :: addr)
   \<and> disjoint_ranges 8192 (length hello + 1) (lib_global_counter_addr hello_state) 4
   \<and> lib_global_counter hello_state = 0
   \<and> counter_after (lib_process_data 4096 8192 256 hello_state) = Some 0
   \<and> unat (21 :: addr) \<le> length hello
   \<and> counter_after (lib_process_data 4096 8192 21 hello_state) = Some 0"
  using lib_increment_counter_counts [where st = initial_state and n = 3]
    lib_increment_counter_counts [where st = hello_state
      and input = 4096 and out = 8192 and output_size = 256 and s = hello]
    lib_increment_counter_counts [where st = hello_state
      and input = 4096 and out = 8192 and output_size = 21 and s = hello]
    string_at_hello disjoint_hello counter_hello
  by (simp add: length_hello)

theorem lib_increment_counter_counts_counterexample:
  "lib_global_counter_addr abc_state = 1024
   \<and> string_at (mem abc_state) 4096 (bytes_of ''abc'')
   \<and> length (bytes_of ''abc'') < unat (4 :: addr)
   \<and> lib_global_counter abc_state = 0
   \<and> returned (lib_process_data 4096 1024 4 abc_state) = Some (Inr 3)
   \<and> counter_after (lib_process_data 4096 1024 4 abc_state) = Some 4276803"
proof (intro conjI)
  show "lib_global_counter_addr abc_state = 1024"
    by (simp add: abc_state_def counter_addr_with_string counter_addr_initial)
  show "string_at (mem abc_state) 4096 (bytes_of ''abc'')"
    by (rule string_at_abc)
  show "length (bytes_of ''abc'') < unat (4 :: addr)"
    by (simp add: bytes_of_def)
  show "lib_global_counter abc_state = 0"
    by (simp add: lib_global_counter_def abc_state_def with_string_def initial_state_def
        bytes_of_def load_int_def zero_memory_def)
  show "returned (lib_process_data 4096 1024 4 abc_state) = Some (Inr 3)"
    by (simp add: abc_onto_counter returned_def)
  show "counter_after (lib_process_data 4096 1024 4 abc_state) = Some 4276803"
    unfolding abc_onto_counter
    by (simp add: counter_after_def lib_global_counter_def load_int_def process_loop.simps
        store_byte_def uppercase_unsigned abc_state_def with_string_def initial_state_def
        bytes_of_def)
qed

text \<open>
  C6. The host returns 0 when the module loads, the five exports are resolved and the string
  literal of \<open>main\<close> is in the store; it returns 1 when the module does not load, and 1 when
  the module loads and a required export is missing. When the module does not load, the host
  calls \<open>dlopen\<close> and \<open>dlerror\<close>, writes \<open>Failed to load library:\<close> with the text of
  \<open>dlerror\<close> to \<open>stderr\<close>, and does nothing else: no \<open>dlsym\<close> follows.
\<close>

theorem main_exit_codes:
  "(modules env ''./libshared14.so'' = None \<longrightarrow>
      returned (main env st) = Some 1
      \<and> trace_after (main env st) = Some (trace st @
           [Dlopen ''./libshared14.so'', Dlerror,
            Fprintf_stderr ''Failed to load library: %s\<newline>'' [Arg_str (dlerror_text env)]]))
   \<and> (modules env ''./libshared14.so'' = Some exports
        \<and> \<not> set required_exports \<subseteq> set exports \<longrightarrow>
      returned (main env st) = Some 1)
   \<and> (modules env ''./libshared14.so'' = Some exports
        \<and> set required_exports \<subseteq> set exports
        \<and> string_at (mem st) (literal_addr env) hello \<longrightarrow>
      returned (main env st) = Some 0)"
proof (intro conjI impI)
  assume "modules env ''./libshared14.so'' = None"
  note f = main_load_failure [OF this, of st]
  show "returned (main env st) = Some 1"
    by (simp add: f returned_def)
  show "trace_after (main env st) = Some (trace st @
           [Dlopen ''./libshared14.so'', Dlerror,
            Fprintf_stderr ''Failed to load library: %s\<newline>'' [Arg_str (dlerror_text env)]])"
    by (simp add: f trace_after_def)
next
  assume "modules env ''./libshared14.so'' = Some exports
        \<and> \<not> set required_exports \<subseteq> set exports"
  then have "modules env ''./libshared14.so'' = Some exports"
    "\<not> set required_exports \<subseteq> set exports" by simp_all
  from main_missing_symbol [OF this, of st] show "returned (main env st) = Some 1"
    by (auto simp: returned_def)
next
  assume "modules env ''./libshared14.so'' = Some exports
        \<and> set required_exports \<subseteq> set exports
        \<and> string_at (mem st) (literal_addr env) hello"
  then have a: "modules env ''./libshared14.so'' = Some exports"
    "set required_exports \<subseteq> set exports"
    "literal_addr env = 0 \<or> buffer_addr env = 0
           \<or> string_at (mem st) (literal_addr env) hello" by simp_all
  from main_success [OF a] show "returned (main env st) = Some 0"
    by (auto simp: returned_def)
qed

theorem main_exit_codes_witness:
  "modules env_without_module ''./libshared14.so'' = None
   \<and> returned (main env_without_module initial_state) = Some 1
   \<and> trace_after (main env_without_module initial_state) = Some
        [Dlopen ''./libshared14.so'', Dlerror,
         Fprintf_stderr ''Failed to load library: %s\<newline>''
           [Arg_str ''./libshared14.so: cannot open shared object file: No such file or directory'']]
   \<and> \<not> set required_exports \<subseteq> set (removeAll ''lib_global_counter'' required_exports)
   \<and> returned (main (env_missing ''lib_global_counter'') initial_state) = Some 1
   \<and> string_at (mem hello_state) (literal_addr (env_exporting required_exports)) hello
   \<and> returned (main (env_exporting required_exports) hello_state) = Some 0"
proof -
  have none: "modules env_without_module ''./libshared14.so'' = None"
    by (simp add: env_without_module_def)
  have miss: "\<not> set required_exports \<subseteq> set (removeAll ''lib_global_counter'' required_exports)"
    by (rule missing_not_all) (simp add: required_exports_def)
  have lit: "string_at (mem hello_state) (literal_addr (env_exporting required_exports)) hello"
    by (simp add: literal_env_exporting string_at_hello)
  from main_exit_codes [of env_without_module initial_state "[]"] none
  have a: "returned (main env_without_module initial_state) = Some 1"
    "trace_after (main env_without_module initial_state) = Some
        [Dlopen ''./libshared14.so'', Dlerror,
         Fprintf_stderr ''Failed to load library: %s\<newline>''
           [Arg_str ''./libshared14.so: cannot open shared object file: No such file or directory'']]"
    by (simp_all add: initial_state_def env_without_module_def)
  from main_exit_codes [of "env_missing ''lib_global_counter''" initial_state
      "removeAll ''lib_global_counter'' required_exports"] miss
  have b: "returned (main (env_missing ''lib_global_counter'') initial_state) = Some 1"
    by (simp add: modules_env_missing)
  from main_exit_codes [of "env_exporting required_exports" hello_state required_exports] lit
  have c: "returned (main (env_exporting required_exports) hello_state) = Some 0"
    by (simp add: modules_env_exporting)
  from none a miss b lit c show ?thesis by simp
qed

text \<open>
  C7. Every call whose input pointer is null or points to a C string \<open>s\<close> returns, and the
  bytes it stores are those at the indices \<open>0, \<dots>, n - 1\<close> of the output buffer, in this
  order, for an \<open>n \<le> output_size\<close>; no other byte of the store changes. A failing call
  stores nothing (\<open>n = 0\<close>), a successful one the \<open>length s + 1\<close> bytes at the indices
  \<open>0, \<dots>, length s\<close>. With valid arguments and \<open>output_size \<le> length s\<close> the call fails
  with \<open>BufferTooSmall\<close>: nothing is truncated.
\<close>

theorem lib_process_data_stores_within_capacity:
  assumes "input = 0 \<or> out = 0 \<or> output_size = 0 \<or> string_at (mem st) input s"
  shows "\<exists>r st' n. lib_process_data input out output_size st = Some (r, st')
     \<and> stores st' = stores st @ map (\<lambda>k. out + of_nat k) [0..<n]
     \<and> n \<le> unat output_size
     \<and> (\<forall>a. (\<forall>k<n. a \<noteq> out + of_nat k) \<longrightarrow> mem st' a = mem st a)
     \<and> (case r of Inl e \<Rightarrow> n = 0 | Inr v \<Rightarrow> n = length s + 1)
     \<and> (input \<noteq> 0 \<and> out \<noteq> 0 \<and> output_size \<noteq> 0 \<and> unat output_size \<le> length s
          \<longrightarrow> r = Inl BufferTooSmall)"
proof (cases "input = 0 \<or> out = 0 \<or> output_size = 0")
  case True
  then have "lib_process_data input out output_size st = Some (Inl InvalidArgument, st)"
    by (simp add: lib_process_data_def)
  with True show ?thesis by auto
next
  case False
  with assms have s: "string_at (mem st) input s" by simp
  from False have args: "input \<noteq> 0" "out \<noteq> 0" "output_size \<noteq> 0" by simp_all
  show ?thesis
  proof (cases "unat output_size \<le> length s")
    case True
    from lib_process_data_too_small [OF s args True] show ?thesis by auto
  next
    case small: False
    then have lt: "length s < unat output_size" by simp
    let ?len = "of_nat (length s) :: addr"
    let ?st' = "store_byte (process_loop input out ?len 0 st) (out + ?len) 0"
    have u: "unat ?len = length s"
      using string_at_length [OF s] by (rule unat_of_nat_addr)
    show ?thesis
    proof (intro exI conjI)
      show "lib_process_data input out output_size st = Some (Inr (of_nat (length s)), ?st')"
        using s args(1,2) lt by (rule lib_process_data_valid)
      show "stores ?st' = stores st @ map (\<lambda>k. out + of_nat k) [0..<length s + 1]"
        using written_stores [of input out ?len st] by (simp add: u)
      show "length s + 1 \<le> unat output_size"
        using lt by simp
      show "\<forall>a. (\<forall>k<length s + 1. a \<noteq> out + of_nat k) \<longrightarrow> mem ?st' a = mem st a"
        using written_mem_other [of ?len _ out input st] by (simp add: u)
      show "case Inr (of_nat (length s)) of Inl e \<Rightarrow> length s + 1 = 0
            | Inr (v :: cint) \<Rightarrow> length s + 1 = length s + 1"
        by simp
      show "input \<noteq> 0 \<and> out \<noteq> 0 \<and> output_size \<noteq> 0 \<and> unat output_size \<le> length s
              \<longrightarrow> Inr (of_nat (length s)) = Inl BufferTooSmall"
        using small by simp
    qed
  qed
qed

theorem lib_process_data_stores_within_capacity_witness:
  "string_at (mem hello_state) 4096 hello
   \<and> (\<exists>st'. lib_process_data 4096 8192 256 hello_state = Some (Inr 21, st')
         \<and> stores st' = map (\<lambda>k. 8192 + of_nat k) [0..<22]
         \<and> 22 \<le> unat (256 :: addr))"
proof -
  have h: "(4096 :: addr) = 0 \<or> (8192 :: addr) = 0 \<or> (256 :: addr) = 0
           \<or> string_at (mem hello_state) 4096 hello"
    by (simp add: string_at_hello)
  from lib_process_data_stores_within_capacity [OF h]
  obtain r st' n where call: "lib_process_data 4096 8192 256 hello_state = Some (r, st')"
    and st: "stores st' = stores hello_state @ map (\<lambda>k. 8192 + of_nat k) [0..<n]"
    and n: "case r of Inl e \<Rightarrow> n = 0 | Inr v \<Rightarrow> n = length hello + 1"
    by blast
  from call hello_call have r: "r = Inr 21" by simp
  with n have "n = 22" by (simp add: length_hello)
  moreover have "stores hello_state = []"
    by (simp add: hello_state_def with_string_def initial_state_def)
  ultimately show ?thesis using call st r string_at_hello by simp
qed

text \<open>
  C8 (as amended). For a call whose input pointer is null or points to a C string shorter
  than \<open>2^31\<close> bytes: when \<open>lib_process_data\<close> returns \<open>-1\<close> or \<open>-2\<close>, the state is as it
  was: no byte is changed and no store is done, in the output buffer or anywhere else.

  Without the bound on the length a call that returns \<open>-1\<close> may have written: on a string of
  \<open>2^32 - 1\<close> letters \<open>A\<close> at 4096, with capacity \<open>2^32\<close> and the output pointer \<open>2^33\<close>,
  away from the input, the call returns \<open>(int)len = -1\<close>, and the first byte of the output
  buffer, 0 before the call, is \<open>A\<close> after it.
\<close>

theorem lib_process_data_error_unchanged:
  assumes "input = 0 \<or> out = 0 \<or> output_size = 0
           \<or> string_at (mem st) input s \<and> length s < 2 ^ 31"
    and "lib_process_data input out output_size st = Some (r, st')"
    and "c_return r = - 1 \<or> c_return r = - 2"
  shows "st' = st"
  using assms(2)
proof (cases rule: lib_process_data_cases)
  case invalid
  then show ?thesis by simp
next
  case (small len)
  then show ?thesis by simp
next
  case (written len)
  with assms(1) have s: "string_at (mem st) input s" and b: "length s < 2 ^ 31" by simp_all
  from written strlen_string_at [OF s] have "len = of_nat (length s)" by simp
  with written string_at_length [OF s] have "c_return r = of_nat (length s)"
    by (simp add: ucast_length)
  with assms(3) length_not_error_code [OF b] show ?thesis by simp
qed

theorem lib_process_data_error_unchanged_witness:
  "string_at (mem hello_state) 4096 hello \<and> length hello < 2 ^ 31
   \<and> lib_process_data 4096 8192 21 hello_state = Some (Inl BufferTooSmall, hello_state)
   \<and> c_return (Inl BufferTooSmall) = - 2
   \<and> lib_process_data 0 8192 256 hello_state = Some (Inl InvalidArgument, hello_state)
   \<and> c_return (Inl InvalidArgument) = - 1"
proof -
  have h: "a = 0 \<or> b = 0 \<or> c = 0
           \<or> string_at (mem hello_state) 4096 hello \<and> length hello < 2 ^ 31" for a b c :: addr
    by (simp add: string_at_hello length_hello)
  have i: "lib_process_data 0 8192 256 hello_state = Some (Inl InvalidArgument, hello_state)"
    by (simp add: lib_process_data_def)
  from lib_process_data_error_unchanged [OF h hello_too_small]
    lib_process_data_error_unchanged [OF _ i, of hello]
    hello_too_small i string_at_hello
  show ?thesis by (simp add: length_hello)
qed

theorem lib_process_data_error_unchanged_counterexample:
  "string_at (mem (letters_state 4294967295)) 4096 (letters 4294967295)
   \<and> length (letters 4294967295) < unat (4294967296 :: addr)
   \<and> separated 4096 8589934592 4294967295
   \<and> returned_int (lib_process_data 4096 8589934592 4294967296 (letters_state 4294967295))
       = Some (- 1)
   \<and> load_bytes (mem (letters_state 4294967295)) 8589934592 1 = [0]
   \<and> bytes_after (lib_process_data 4096 8589934592 4294967296 (letters_state 4294967295))
        8589934592 1 = Some [65]"
proof (intro conjI)
  show "string_at (mem (letters_state 4294967295)) 4096 (letters 4294967295)"
    by (rule string_at_letters) simp
  show "length (letters 4294967295) < unat (4294967296 :: addr)"
    by (simp add: length_letters)
  show sep: "separated 4096 8589934592 4294967295"
    by (simp add: separated_def)
  have lt: "4294967295 < unat (4294967296 :: addr)" by simp
  from letters_call_int [OF lt]
  show "returned_int (lib_process_data 4096 8589934592 4294967296 (letters_state 4294967295))
       = Some (- 1)"
    by simp
  show "load_bytes (mem (letters_state 4294967295)) 8589934592 1 = [0]"
    by (simp add: load_bytes_def letters_state_elsewhere)
  from sep have "separated 4096 8589934592 (of_nat 4294967295)" by simp
  from letters_first_output [OF _ lt this]
  show "bytes_after (lib_process_data 4096 8589934592 4294967296 (letters_state 4294967295))
        8589934592 1 = Some [65]"
    by simp
qed

text \<open>
  C9 (as amended). Let \<open>s\<close> be a C string without ASCII lowercase letters, shorter than both
  capacities. Two calls of \<open>lib_process_data\<close> in a row, the second reading what the first
  wrote, leave \<open>s\<close> itself in the second output buffer, when in each of the two calls the
  \<open>len + 1\<close> bytes at the output pointer and the \<open>len + 1\<close> bytes at the input pointer have no
  address in common. The transformation of the specification, reversal composed with
  uppercasing, applied twice to such an \<open>s\<close> is \<open>s\<close>.
\<close>

theorem process_twice_restores:
  assumes "string_at (mem st) p s" "no_lowercase s"
    and "p \<noteq> 0" "q \<noteq> 0" "r \<noteq> 0"
    and "length s < unat size1" "length s < unat size2"
    and "separated p q (of_nat (length s))" "separated q r (of_nat (length s))"
  shows "reverse_upper (reverse_upper s) = s
     \<and> (\<exists>v st2. process_twice p q r size1 size2 st = Some (Inr v, st2)
           \<and> string_at (mem st2) r s)"
proof
  show twice: "reverse_upper (reverse_upper s) = s"
    using assms(2) by (rule reverse_upper_twice)
  let ?len = "of_nat (length s) :: addr"
  let ?st1 = "store_byte (process_loop p q ?len 0 st) (q + ?len) 0"
  let ?st2 = "store_byte (process_loop q r ?len 0 ?st1) (r + ?len) 0"
  have first: "lib_process_data p q size1 st = Some (Inr (of_nat (length s)), ?st1)"
    using assms(1,3,4,6) by (rule lib_process_data_valid)
  have mid: "string_at (mem ?st1) q (reverse_upper s)"
    using assms(1,8) by (rule written_string)
  have len': "length (reverse_upper s) < unat size2"
    using assms(7) by (simp add: length_reverse_upper)
  have sep': "separated q r (of_nat (length (reverse_upper s)))"
    using assms(9) by (simp add: length_reverse_upper)
  from lib_process_data_valid [OF mid assms(4,5) len']
  have second: "lib_process_data q r size2 ?st1 = Some (Inr (of_nat (length s)), ?st2)"
    by (simp add: length_reverse_upper)
  from written_string [OF mid sep']
  have "string_at (mem ?st2) r s"
    by (simp add: length_reverse_upper twice)
  with first second
  show "\<exists>v st2. process_twice p q r size1 size2 st = Some (Inr v, st2) \<and> string_at (mem st2) r s"
    by (simp add: process_twice_def)
qed

theorem process_twice_restores_witness:
  "string_at (mem AB_state) 4096 (bytes_of ''AB'')
   \<and> no_lowercase (bytes_of ''AB'')
   \<and> separated 4096 8192 2 \<and> separated 8192 12288 2
   \<and> (\<exists>v st2. process_twice 4096 8192 12288 256 256 AB_state = Some (Inr v, st2)
         \<and> string_at (mem st2) 12288 (bytes_of ''AB''))"
proof -
  have sep: "separated 4096 8192 (of_nat (length (bytes_of ''AB'')))"
    "separated 8192 12288 (of_nat (length (bytes_of ''AB'')))"
    by (simp_all add: separated_def bytes_of_def)
  have len: "length (bytes_of ''AB'') < unat (256 :: addr)"
    by (simp add: bytes_of_def)
  from process_twice_restores [OF string_at_AB no_lowercase_AB _ _ _ len len sep]
    string_at_AB no_lowercase_AB sep
  show ?thesis by (simp add: bytes_of_def)
qed

text \<open>
  Applied twice in place, the function does not give the string back: \<open>AB\<close> becomes \<open>BB\<close>
  in the first call and stays \<open>BB\<close> in the second.
\<close>

theorem process_twice_restores_counterexample:
  "string_at (mem AB_state) 4096 (bytes_of ''AB'')
   \<and> no_lowercase (bytes_of ''AB'')
   \<and> length (bytes_of ''AB'') < unat (3 :: addr)
   \<and> bytes_of ''AB'' @ [0] = [65, 66, 0]
   \<and> returned (process_twice 4096 4096 4096 3 3 AB_state) = Some (Inr 2)
   \<and> bytes_after (process_twice 4096 4096 4096 3 3 AB_state) 4096 3 = Some [66, 66, 0]"
proof (intro conjI)
  show "string_at (mem AB_state) 4096 (bytes_of ''AB'')" by (rule string_at_AB)
  show "no_lowercase (bytes_of ''AB'')" by (rule no_lowercase_AB)
  show "length (bytes_of ''AB'') < unat (3 :: addr)" by (simp add: bytes_of_def)
  show "bytes_of ''AB'' @ [0] = [65, 66, 0]" by (simp add: bytes_of_def)
  have twice: "process_twice 4096 4096 4096 3 3 AB_state =
     Some (Inr 2,
       store_byte (process_loop 4096 4096 2 0
         (store_byte (process_loop 4096 4096 2 0 AB_state) 4098 0)) 4098 0)"
    by (simp add: process_twice_def AB_in_place BB_in_place)
  show "returned (process_twice 4096 4096 4096 3 3 AB_state) = Some (Inr 2)"
    by (simp add: twice returned_def)
  show "bytes_after (process_twice 4096 4096 4096 3 3 AB_state) 4096 3 = Some [66, 66, 0]"
    unfolding twice
    by (simp add: bytes_after_def load_bytes_def process_loop.simps store_byte_def
        uppercase_unsigned AB_state_def with_string_def initial_state_def bytes_of_def upt_rec)
qed

text \<open>
  C10 (as amended). A call of \<open>lib_process_data\<close> with a null pointer, a zero capacity or
  a capacity not above the length of the input string returns and leaves the state as it
  was; for an input string shorter than \<open>2^31\<close> bytes those are the calls that return \<open>-1\<close>
  or \<open>-2\<close>. A call that succeeds leaves every byte of the input string, its terminator
  included, as it was, when the \<open>len + 1\<close> bytes written at the output pointer and the
  \<open>len + 1\<close> bytes of the input string have no address in common; and it leaves
  \<open>lib_global_counter\<close> as it was, when the \<open>len + 1\<close> bytes written and the four bytes of the
  counter have no address in common. When the \<open>len + 1\<close> bytes of the input string and the
  four bytes of the counter have no address in common, the call does not depend on the
  counter: with any other value \<open>v\<close> in the counter it returns the same result and writes
  the same bytes to the output buffer.

  Without these conditions each part fails. With the string \<open>ab\<close> at address 4096 and the
  output pointer 4097, the call succeeds and the bytes from 4096 on are \<open>a\<close>, \<open>B\<close>, \<open>A\<close>, NUL
  afterwards. With the output pointer at the counter, address 1024, the call on \<open>ab\<close>
  succeeds and the counter, 0 before, is 16706 (\<open>0x4142\<close>) after. With the input pointer at
  the counter, the call returns 0 when the counter is 0 and 1 when the counter is 65.
\<close>

theorem lib_process_data_frame:
  "(input = 0 \<or> out = 0 \<or> output_size = 0
      \<or> string_at (mem st) input s \<and> unat output_size \<le> length s \<longrightarrow>
     (\<exists>r. lib_process_data input out output_size st = Some (r, st)))
   \<and> (string_at (mem st) input s \<and> length s < 2 ^ 31 \<longrightarrow>
       (\<forall>r st'. lib_process_data input out output_size st = Some (r, st')
           \<and> (c_return r = - 1 \<or> c_return r = - 2) \<longrightarrow> st' = st))
   \<and> (string_at (mem st) input s \<and> input \<noteq> 0 \<and> out \<noteq> 0 \<and> length s < unat output_size \<longrightarrow>
       (\<exists>r st'. lib_process_data input out output_size st = Some (r, st')
          \<and> (separated input out (of_nat (length s)) \<longrightarrow>
               (\<forall>k\<le>length s. mem st' (input + of_nat k) = mem st (input + of_nat k))
               \<and> string_at (mem st') input s)
          \<and> (disjoint_ranges out (length s + 1) (lib_global_counter_addr st) 4 \<longrightarrow>
               lib_global_counter st' = lib_global_counter st)))
   \<and> (string_at (mem st) input s
       \<and> disjoint_ranges input (length s + 1) (lib_global_counter_addr st) 4 \<longrightarrow>
       returned (lib_process_data input out output_size (with_counter v st))
         = returned (lib_process_data input out output_size st)
       \<and> (input \<noteq> 0 \<and> out \<noteq> 0 \<and> length s < unat output_size \<longrightarrow>
            bytes_after (lib_process_data input out output_size (with_counter v st))
                out (length s + 1)
              = bytes_after (lib_process_data input out output_size st) out (length s + 1)))"
proof (intro conjI impI allI)
  show "\<exists>r. lib_process_data input out output_size st = Some (r, st)"
    if "input = 0 \<or> out = 0 \<or> output_size = 0
        \<or> string_at (mem st) input s \<and> unat output_size \<le> length s"
    using that by (rule lib_process_data_fails_unchanged)
next
  fix r st'
  assume "string_at (mem st) input s \<and> length s < 2 ^ 31"
    and "lib_process_data input out output_size st = Some (r, st')
           \<and> (c_return r = - 1 \<or> c_return r = - 2)"
  then show "st' = st"
    using error_code_means_failure [of st input s out output_size r st'] by simp
next
  assume a: "string_at (mem st) input s \<and> input \<noteq> 0 \<and> out \<noteq> 0 \<and> length s < unat output_size"
  then have s: "string_at (mem st) input s" and args: "input \<noteq> 0" "out \<noteq> 0"
    and l: "length s < unat output_size"
    by simp_all
  let ?st' = "store_byte (process_loop input out (of_nat (length s)) 0 st)
                (out + of_nat (length s)) 0"
  note call = lib_process_data_valid [OF s args l]
  have "(\<forall>k\<le>length s. mem ?st' (input + of_nat k) = mem st (input + of_nat k))
        \<and> string_at (mem ?st') input s"
    if "separated input out (of_nat (length s))"
    using input_preserved [OF s that] input_string_preserved [OF s that] by simp
  moreover have "lib_global_counter ?st' = lib_global_counter st"
    if "disjoint_ranges out (length s + 1) (lib_global_counter_addr st) 4"
    using string_at_length [OF s] that by (rule written_counter)
  ultimately show "\<exists>r st'. lib_process_data input out output_size st = Some (r, st')
          \<and> (separated input out (of_nat (length s)) \<longrightarrow>
               (\<forall>k\<le>length s. mem st' (input + of_nat k) = mem st (input + of_nat k))
               \<and> string_at (mem st') input s)
          \<and> (disjoint_ranges out (length s + 1) (lib_global_counter_addr st) 4 \<longrightarrow>
               lib_global_counter st' = lib_global_counter st)"
    unfolding call by blast
next
  assume a: "string_at (mem st) input s
       \<and> disjoint_ranges input (length s + 1) (lib_global_counter_addr st) 4"
  then have s: "string_at (mem st) input s"
    and d: "disjoint_ranges input (length s + 1) (lib_global_counter_addr st) 4"
    by simp_all
  have eq: "\<forall>k\<le>length s. mem (with_counter v st) (input + of_nat k) = mem st (input + of_nat k)"
    by (simp add: with_counter_elsewhere [OF d])
  from lib_process_data_reads_input_only(1) [OF s eq]
  show "returned (lib_process_data input out output_size (with_counter v st))
         = returned (lib_process_data input out output_size st)" .
  assume "input \<noteq> 0 \<and> out \<noteq> 0 \<and> length s < unat output_size"
  then show "bytes_after (lib_process_data input out output_size (with_counter v st))
                out (length s + 1)
              = bytes_after (lib_process_data input out output_size st) out (length s + 1)"
    using lib_process_data_reads_input_only(2) [OF s eq, of out output_size] by simp
qed

theorem lib_process_data_frame_witness:
  "string_at (mem hello_state) 4096 hello
   \<and> length hello < 2 ^ 31 \<and> length hello < unat (256 :: addr)
   \<and> unat (21 :: addr) \<le> length hello
   \<and> separated 4096 8192 (of_nat (length hello))
   \<and> disjoint_ranges 8192 (length hello + 1) (lib_global_counter_addr hello_state) 4
   \<and> disjoint_ranges 4096 (length hello + 1) (lib_global_counter_addr hello_state) 4
   \<and> lib_process_data 4096 8192 21 hello_state = Some (Inl BufferTooSmall, hello_state)
   \<and> c_return (Inl BufferTooSmall) = - 2
   \<and> lib_process_data 4096 8192 256 hello_state =
       Some (Inr 21, store_byte (process_loop 4096 8192 21 0 hello_state) 8213 0)
   \<and> string_at (mem (store_byte (process_loop 4096 8192 21 0 hello_state) 8213 0)) 4096 hello
   \<and> lib_global_counter (store_byte (process_loop 4096 8192 21 0 hello_state) 8213 0)
       = lib_global_counter hello_state
   \<and> returned (lib_process_data 4096 8192 256 (with_counter 7 hello_state)) = Some (Inr 21)
   \<and> bytes_after (lib_process_data 4096 8192 256 (with_counter 7 hello_state)) 8192 22
       = bytes_after (lib_process_data 4096 8192 256 hello_state) 8192 22"
  using lib_process_data_frame [where st = hello_state and input = 4096 and out = 8192
      and output_size = 256 and s = hello and v = 7]
    lib_process_data_frame [where st = hello_state and input = 4096 and out = 8192
      and output_size = 21 and s = hello and v = 7]
    string_at_hello separated_hello disjoint_hello disjoint_hello_input hello_call
    hello_too_small
  by (simp add: length_hello returned_def)

theorem lib_process_data_frame_counterexample:
  "string_at (mem ab_state) 4096 (bytes_of ''ab'')
   \<and> load_bytes (mem ab_state) 4096 4 = [97, 98, 0, 0]
   \<and> returned (lib_process_data 4096 4097 3 ab_state) = Some (Inr 2)
   \<and> bytes_after (lib_process_data 4096 4097 3 ab_state) 4096 4 = Some [97, 66, 65, 0]
   \<and> lib_global_counter_addr ab_state = 1024
   \<and> lib_global_counter ab_state = 0
   \<and> returned (lib_process_data 4096 1024 3 ab_state) = Some (Inr 2)
   \<and> counter_after (lib_process_data 4096 1024 3 ab_state) = Some 16706
   \<and> lib_global_counter_addr initial_state = 1024
   \<and> returned (lib_process_data 1024 8192 256 (with_counter 0 initial_state)) = Some (Inr 0)
   \<and> returned (lib_process_data 1024 8192 256 (with_counter 65 initial_state)) = Some (Inr 1)"
proof (intro conjI)
  show "string_at (mem ab_state) 4096 (bytes_of ''ab'')"
    by (rule string_at_ab)
  show "load_bytes (mem ab_state) 4096 4 = [97, 98, 0, 0]"
    by (simp add: load_bytes_def ab_state_def with_string_def initial_state_def bytes_of_def
        zero_memory_def upt_rec)
  show "returned (lib_process_data 4096 4097 3 ab_state) = Some (Inr 2)"
    by (simp add: ab_shifted returned_def)
  show "bytes_after (lib_process_data 4096 4097 3 ab_state) 4096 4 = Some [97, 66, 65, 0]"
    unfolding ab_shifted
    by (simp add: bytes_after_def load_bytes_def process_loop.simps store_byte_def
        uppercase_unsigned ab_state_def with_string_def initial_state_def bytes_of_def upt_rec)
  show "lib_global_counter_addr ab_state = 1024"
    by (simp add: ab_state_def counter_addr_with_string counter_addr_initial)
  show "lib_global_counter ab_state = 0"
    by (simp add: lib_global_counter_def ab_state_def with_string_def initial_state_def
        bytes_of_def load_int_def zero_memory_def)
  show "returned (lib_process_data 4096 1024 3 ab_state) = Some (Inr 2)"
    by (simp add: ab_onto_counter returned_def)
  show "counter_after (lib_process_data 4096 1024 3 ab_state) = Some 16706"
    unfolding ab_onto_counter
    by (simp add: counter_after_def lib_global_counter_def load_int_def process_loop.simps
        store_byte_def uppercase_unsigned ab_state_def with_string_def initial_state_def
        bytes_of_def zero_memory_def)
  show "lib_global_counter_addr initial_state = 1024"
    by (rule counter_addr_initial)
  show "returned (lib_process_data 1024 8192 256 (with_counter 0 initial_state)) = Some (Inr 0)"
    using lib_process_data_valid [OF string_at_counter_0, of 8192 256]
    by (simp add: returned_def)
  show "returned (lib_process_data 1024 8192 256 (with_counter 65 initial_state)) = Some (Inr 1)"
    using lib_process_data_valid [OF string_at_counter_65, of 8192 256]
    by (simp add: returned_def)
qed

end
